theory Spec2Isabelle
  imports Complex_Main
begin

section \<open>Scalar utilities of \<^verbatim>\<open>geomt/linear2d.pyx\<close>\<close>

text \<open>
  The module computes on C doubles. In the model of the class they are idealised as real
  numbers: rounding, signed zeros, infinities and NaN are left out, and the functions that
  the module takes from \<^verbatim>\<open>libc.math\<close> are the mathematical functions they approximate.
  The loops of \<^verbatim>\<open>radian_range\<close> are modelled on doubles as well, with rounding, since
  rounding decides whether they end.
\<close>

abbreviation M_PI :: real where "M_PI \<equiv> pi"
abbreviation M_PI_2 :: real where "M_PI_2 \<equiv> pi / 2"

definition fabs :: "real \<Rightarrow> real" where
  "fabs x = \<bar>x\<bar>"

definition hypot :: "real \<Rightarrow> real \<Rightarrow> real" where
  "hypot x y = sqrt (x\<^sup>2 + y\<^sup>2)"

text \<open>\<^verbatim>\<open>atan2(y, x)\<close>: the angle of the point \<open>(x, y)\<close>, in \<open>(-pi, pi]\<close>.\<close>

definition atan2 :: "real \<Rightarrow> real \<Rightarrow> real" where
  "atan2 y x =
    (if 0 < x then arctan (y / x)
     else if x < 0 then (if 0 \<le> y then arctan (y / x) + pi else arctan (y / x) - pi)
     else if 0 < y then pi / 2
     else if y < 0 then - (pi / 2)
     else 0)"

text \<open>The default value \<^verbatim>\<open>eps=1e-06\<close> of \<^verbatim>\<open>feq\<close>.\<close>

definition default_eps :: real where
  "default_eps = 1 / 1000000"

definition feq :: "real \<Rightarrow> real \<Rightarrow> real \<Rightarrow> bool" where
  "feq a b eps \<longleftrightarrow> fabs (a - b) < eps"

text \<open>
  \<^verbatim>\<open>radian_range\<close> is two loops in sequence:
  \<^verbatim>\<open>while rad >= M_PI: rad -= M_PI\<close> and then \<^verbatim>\<open>while rad < -M_PI: rad += M_PI\<close>.
  Each loop is a recursive function; in exact arithmetic both end on every input.
\<close>

function radian_range_sub :: "real \<Rightarrow> real" where
  "radian_range_sub rad = (if rad \<ge> M_PI then radian_range_sub (rad - M_PI) else rad)"
  by pat_completeness auto
termination
proof (relation "measure (\<lambda>rad. nat \<lfloor>rad / pi\<rfloor>)")
  show "wf (measure (\<lambda>rad. nat \<lfloor>rad / pi\<rfloor>))" by simp
next
  fix rad :: real
  assume le: "M_PI \<le> rad"
  have eq: "(rad - pi) / pi = rad / pi - 1"
    by (simp add: field_simps)
  have "1 \<le> rad / pi" using le by (simp add: field_simps)
  then have "1 \<le> \<lfloor>rad / pi\<rfloor>" by (simp add: le_floor_iff)
  then have "nat \<lfloor>rad / pi - 1\<rfloor> < nat \<lfloor>rad / pi\<rfloor>" by simp
  then show "(rad - M_PI, rad) \<in> measure (\<lambda>rad. nat \<lfloor>rad / pi\<rfloor>)"
    using eq by simp
qed

function radian_range_add :: "real \<Rightarrow> real" where
  "radian_range_add rad = (if rad < - M_PI then radian_range_add (rad + M_PI) else rad)"
  by pat_completeness auto
termination
proof (relation "measure (\<lambda>rad. nat (- \<lfloor>rad / pi\<rfloor>))")
  show "wf (measure (\<lambda>rad. nat (- \<lfloor>rad / pi\<rfloor>)))" by simp
next
  fix rad :: real
  assume lt: "rad < - M_PI"
  have eq: "(rad + pi) / pi = rad / pi + 1"
    by (simp add: field_simps)
  have "rad / pi < - 1 \<longleftrightarrow> rad < - 1 * pi"
    by (rule pos_divide_less_eq) simp
  then have "rad / pi < - 1" using lt by simp
  then have "rad / pi < of_int (- 1)" by simp
  then have neg: "\<lfloor>rad / pi\<rfloor> < - 1" by (simp only: floor_less_iff)
  have "\<lfloor>rad / pi + 1\<rfloor> = \<lfloor>rad / pi\<rfloor> + 1"
    using floor_add_int [of "rad / pi" 1] by simp
  with neg have "nat (- \<lfloor>rad / pi + 1\<rfloor>) < nat (- \<lfloor>rad / pi\<rfloor>)" by linarith
  then show "(rad + M_PI, rad) \<in> measure (\<lambda>rad. nat (- \<lfloor>rad / pi\<rfloor>))"
    using eq by simp
qed

declare radian_range_sub.simps [simp del] radian_range_add.simps [simp del]

definition radian_range :: "real \<Rightarrow> real" where
  "radian_range rad = radian_range_add (radian_range_sub rad)"

subsection \<open>The principal range on doubles\<close>

text \<open>
  Whether the loops of \<^verbatim>\<open>radian_range\<close> end depends on rounding: \<^verbatim>\<open>rad -= M_PI\<close> stores
  the double nearest to the difference. The loops are therefore modelled a second time, on
  doubles. \<^verbatim>\<open>M_PI\<close> is the double \<open>3.141592653589793\<close>:
\<close>

definition M_PI_double :: real where
  "M_PI_double = 884279719003555 / 281474976710656"

text \<open>
  Rounding to the nearest double, ties to even: a double has a significand of 53 bits, so
  a number in \<open>[2^e, 2^(e+1))\<close> is rounded to a multiple of \<open>2^(e-52)\<close>. The exponent
  range is not bounded here: the differences and sums below neither overflow nor
  underflow.
\<close>

definition round_even :: "real \<Rightarrow> int" where
  "round_even z =
    (let f = \<lfloor>z\<rfloor>; d = z - of_int f in
     if d < 1 / 2 then f
     else if 1 / 2 < d then f + 1
     else if even f then f else f + 1)"

definition round_double :: "real \<Rightarrow> real" where
  "round_double x =
    (if x = 0 then 0
     else (let s = 2 powr of_int (52 - \<lfloor>log 2 \<bar>x\<bar>\<rfloor>)
           in of_int (round_even (x * s)) / s))"

text \<open>
  The two loops; a loop that never ends has the value \<open>None\<close>.
\<close>

partial_function (option) radian_range_sub_double :: "real \<Rightarrow> real option" where
  "radian_range_sub_double rad =
    (if rad \<ge> M_PI_double then radian_range_sub_double (round_double (rad - M_PI_double))
     else Some rad)"

partial_function (option) radian_range_add_double :: "real \<Rightarrow> real option" where
  "radian_range_add_double rad =
    (if rad < - M_PI_double then radian_range_add_double (round_double (rad + M_PI_double))
     else Some rad)"

definition radian_range_double :: "real \<Rightarrow> real option" where
  "radian_range_double rad =
    (case radian_range_sub_double rad of
       None \<Rightarrow> None
     | Some r \<Rightarrow> radian_range_add_double r)"

text \<open>One pass through the body of the first loop, and of the second.\<close>

definition sub_step :: "real \<Rightarrow> real" where
  "sub_step rad = round_double (rad - M_PI_double)"

definition add_step :: "real \<Rightarrow> real" where
  "add_step rad = round_double (rad + M_PI_double)"


section \<open>The class \<^verbatim>\<open>lin2\<close>\<close>

text \<open>
  The C fields of the extension type. A new object has every field zeroed before
  \<^verbatim>\<open>__init__\<close> runs. The fields are not visible from Python: they change only through
  the setters and \<^verbatim>\<open>cleanse\<close>.
\<close>

record lin2 =
  m_sx :: real
  m_sy :: real
  m_r :: real
  m_h :: real
  m_dirty :: bool
  m_lx :: real
  m_ly :: real
  m_qx :: real
  m_qy :: real

definition lin2_new :: lin2 where
  "lin2_new = \<lparr>m_sx = 0, m_sy = 0, m_r = 0, m_h = 0, m_dirty = False,
               m_lx = 0, m_ly = 0, m_qx = 0, m_qy = 0\<rparr>"

text \<open>
  The exceptions the module can raise. \<^verbatim>\<open>ValueError\<close> carries its message (without the
  formatted value), \<^verbatim>\<open>AttributeError\<close> the name that was looked up. Cython checks
  a division of doubles and raises \<^verbatim>\<open>ZeroDivisionError\<close> on a zero divisor.
\<close>

datatype error = ValueError string | AttributeError string | ZeroDivisionError

text \<open>A 2x2 array, by rows: \<open>((a0, a1), (a2, a3))\<close>.\<close>

type_synonym mat2 = "(real \<times> real) \<times> (real \<times> real)"

definition cleanse :: "lin2 \<Rightarrow> lin2" where
  "cleanse self =
    (if m_dirty self then
       (let c0 = m_sx self * cos (m_r self);
            s0 = m_sy self * sin (m_r self + m_h self);
            c1 = m_sy self * cos (m_r self + m_h self);
            s1 = m_sx self * sin (m_r self)
        in self\<lparr>m_lx := hypot c0 s0, m_qx := atan2 s0 c0,
                 m_ly := hypot c1 s1, m_qy := atan2 s1 c1, m_dirty := False\<rparr>)
     else self)"

subsection \<open>Properties\<close>

text \<open>
  A setter returns what it raised or \<open>Inr ()\<close>, together with the object as the call
  leaves it.
\<close>

definition get_scale :: "lin2 \<Rightarrow> real list" where
  "get_scale self = [m_sx self, m_sy self]"

definition set_scale :: "real list \<Rightarrow> lin2 \<Rightarrow> (error + unit) \<times> lin2" where
  "set_scale scale self =
    (if length scale \<noteq> 2 then (Inl (ValueError ''Scale is not a pair''), self)
     else if \<not> (scale ! 0 > 0) then
       (Inl (ValueError ''The first scale component is not positive.''), self)
     else if \<not> (scale ! 1 > 0) then
       (Inl (ValueError ''The second scale component is not positive.''), self)
     else (Inr (), self\<lparr>m_sx := scale ! 0, m_sy := scale ! 1, m_dirty := True\<rparr>))"

definition get_angle :: "lin2 \<Rightarrow> real" where
  "get_angle self = m_r self"

definition set_angle :: "real \<Rightarrow> lin2 \<Rightarrow> (error + unit) \<times> lin2" where
  "set_angle angle self = (Inr (), self\<lparr>m_r := radian_range angle, m_dirty := True\<rparr>)"

definition get_shear :: "lin2 \<Rightarrow> real" where
  "get_shear self = m_h self"

definition set_shear :: "real \<Rightarrow> lin2 \<Rightarrow> (error + unit) \<times> lin2" where
  "set_shear shear self =
    (let h = radian_range shear in
     if feq h M_PI_2 default_eps then
       (Inl (ValueError ''Singular case detected. Shearing of right angle is not accepted.''),
        self)
     else if feq h (- M_PI_2) default_eps then
       (Inl (ValueError
          ''Singular case detected. Shearing of negative right angle is not accepted.''),
        self)
     else (Inr (), self\<lparr>m_h := h, m_dirty := True\<rparr>))"

definition matrix :: "lin2 \<Rightarrow> mat2" where
  "matrix self =
    ((m_sx self * cos (m_r self), - m_sy self * sin (m_r self + m_h self)),
     (m_sx self * sin (m_r self), m_sy self * cos (m_r self + m_h self)))"

subsection \<open>Methods\<close>

text \<open>
  \<^verbatim>\<open>__init__\<close> runs the three setters on the new object, in this order; the first
  exception ends the construction. The defaults are \<^verbatim>\<open>scale=_np.ones(2), angle=0, shear=0\<close>.
\<close>

definition lin2_init :: "real list \<Rightarrow> real \<Rightarrow> real \<Rightarrow> error + lin2" where
  "lin2_init scale angle shear =
    (case set_scale scale lin2_new of
       (Inl e, _) \<Rightarrow> Inl e
     | (Inr _, s1) \<Rightarrow>
        (case set_angle angle s1 of
           (Inl e, _) \<Rightarrow> Inl e
         | (Inr _, s2) \<Rightarrow>
            (case set_shear shear s2 of
               (Inl e, _) \<Rightarrow> Inl e
             | (Inr _, s3) \<Rightarrow> Inr s3)))"

definition lin2_default :: "error + lin2" where
  "lin2_default = lin2_init [1, 1] 0 0"

definition from_matrix :: "mat2 \<Rightarrow> error + lin2" where
  "from_matrix mat =
    (let a0 = fst (fst mat); a1 = snd (fst mat);
         a2 = fst (snd mat); a3 = snd (snd mat);
         sx = hypot a0 a2;
         sy = hypot a1 a3;
         r = radian_range (atan2 a2 a0);
         h = radian_range (atan2 a1 a3 - r)
     in lin2_init [sx, sy] r h)"

text \<open>
  The names that an attribute lookup on a \<^verbatim>\<open>lin2\<close> object finds in the class: its
  static method, properties and \<^verbatim>\<open>def\<close>/\<^verbatim>\<open>cpdef\<close> methods (\<^verbatim>\<open>cleanse\<close> is
  \<^verbatim>\<open>cdef\<close>, so it is not among them). The class has no base class other than \<^verbatim>\<open>object\<close>.
\<close>

definition lin2_attributes :: "string list" where
  "lin2_attributes =
    [''from_matrix'', ''sx'', ''sy'', ''scale'', ''angle'', ''shear'', ''matrix'',
     ''__init__'', ''__repr__'', ''__lshift__'', ''__rshift__'', ''__cmul__'', ''__mul__'',
     ''__invert__'', ''__truediv__'', ''__mod__'', ''conjugate'']"

definition lin2_getattr :: "string \<Rightarrow> error + unit" where
  "lin2_getattr name =
    (if name \<in> set lin2_attributes then Inr () else Inl (AttributeError name))"

text \<open>A one-dimensional array is the list of its entries; its shape is its length.\<close>

definition shape :: "real list \<Rightarrow> nat list" where
  "shape x = [length x]"

definition np_dot :: "mat2 \<Rightarrow> real list \<Rightarrow> real list" where
  "np_dot m x =
    [fst (fst m) * x ! 0 + snd (fst m) * x ! 1,
     fst (snd m) * x ! 0 + snd (snd m) * x ! 1]"

text \<open>
  \<^verbatim>\<open>__lshift__\<close> checks the shape and then evaluates \<^verbatim>\<open>self.to_matrix()\<close>, an
  attribute lookup by name, before the product.
\<close>

definition lin2_lshift :: "lin2 \<Rightarrow> real list \<Rightarrow> error + real list" where
  "lin2_lshift self x =
    (if shape x \<noteq> [2] then Inl (ValueError ''Input shape is not (2,).'')
     else (case lin2_getattr ''to_matrix'' of
             Inl e \<Rightarrow> Inl e
           | Inr _ \<Rightarrow> Inr (np_dot (matrix self) x)))"

text \<open>The array that \<^verbatim>\<open>__cmul__\<close> builds from the cleansed left operand and the right one.\<close>

definition cmul_matrix :: "lin2 \<Rightarrow> lin2 \<Rightarrow> mat2" where
  "cmul_matrix self other =
    (let b_sx = m_sx other; b_sy = m_sy other; b_r = m_r other; b_h = m_h other in
     ((m_lx self * b_sx * cos (m_qx self + b_r),
       - m_lx self * b_sy * sin (m_qx self + b_r + b_h)),
      (m_ly self * b_sx * sin (m_qy self + b_r),
       m_ly self * b_sy * cos (m_qy self + b_r + b_h))))"

text \<open>
  The operators return the left operand as \<^verbatim>\<open>cleanse\<close> leaves it, and the result or
  the exception.
\<close>

definition lin2_cmul :: "lin2 \<Rightarrow> lin2 \<Rightarrow> lin2 \<times> (error + lin2)" where
  "lin2_cmul self other =
    (let self' = cleanse self in (self', from_matrix (cmul_matrix self' other)))"

definition lin2_mul :: "lin2 \<Rightarrow> lin2 \<Rightarrow> lin2 \<times> (error + lin2)" where
  "lin2_mul self other = lin2_cmul self other"

definition lin2_invert :: "lin2 \<Rightarrow> lin2 \<times> (error + lin2)" where
  "lin2_invert self =
    (let s = cleanse self;
         d = cos (m_qx s - m_qy s)
     in if d = 0 then (s, Inl ZeroDivisionError)
        else
          (let (b_r, b_h, g) =
                 (if m_h s > - M_PI_2 \<and> m_h s < M_PI_2 then
                    (radian_range (- m_qy s), radian_range (M_PI + m_qy s - m_qx s), 1 / d)
                  else
                    (radian_range (M_PI - m_qy s), radian_range (m_qy s - m_qx s), - 1 / d))
           in if m_lx s = 0 \<or> m_ly s = 0 then (s, Inl ZeroDivisionError)
              else (s, lin2_init [g / m_lx s, g / m_ly s] b_r b_h)))"

text \<open>\<^verbatim>\<open>__rshift__\<close>: \<^verbatim>\<open>(~self) << x\<close>.\<close>

definition lin2_rshift :: "lin2 \<Rightarrow> real list \<Rightarrow> lin2 \<times> (error + real list)" where
  "lin2_rshift self x =
    (case lin2_invert self of
       (s, Inl e) \<Rightarrow> (s, Inl e)
     | (s, Inr b) \<Rightarrow> (s, lin2_lshift b x))"

text \<open>
  \<^verbatim>\<open>a/b = a*(~b)\<close>, \<^verbatim>\<open>a%b = (~a)*b\<close> and \<^verbatim>\<open>a.conjugate(b) = a*(b/a)\<close>, for two
  distinct objects; both operands are returned as the call leaves them.
\<close>

definition lin2_truediv :: "lin2 \<Rightarrow> lin2 \<Rightarrow> (lin2 \<times> lin2) \<times> (error + lin2)" where
  "lin2_truediv self other =
    (case lin2_invert other of
       (other', Inl e) \<Rightarrow> ((self, other'), Inl e)
     | (other', Inr b) \<Rightarrow>
        (case lin2_mul self b of (self', res) \<Rightarrow> ((self', other'), res)))"

definition lin2_mod :: "lin2 \<Rightarrow> lin2 \<Rightarrow> (lin2 \<times> lin2) \<times> (error + lin2)" where
  "lin2_mod self other =
    (case lin2_invert self of
       (self', Inl e) \<Rightarrow> ((self', other), Inl e)
     | (self', Inr b) \<Rightarrow> ((self', other), snd (lin2_mul b other)))"

definition conjugate :: "lin2 \<Rightarrow> lin2 \<Rightarrow> (lin2 \<times> lin2) \<times> (error + lin2)" where
  "conjugate self other =
    (case lin2_truediv other self of
       ((other', self'), Inl e) \<Rightarrow> ((self', other'), Inl e)
     | ((other', self'), Inr q) \<Rightarrow>
        (case lin2_mul self' q of (self'', res) \<Rightarrow> ((self'', other'), res)))"


section \<open>Vocabulary of the properties\<close>

text \<open>The product of two 2x2 matrices, and the distance of two matrices entry by entry.\<close>

definition mat_mul :: "mat2 \<Rightarrow> mat2 \<Rightarrow> mat2" where
  "mat_mul a b =
    ((fst (fst a) * fst (fst b) + snd (fst a) * fst (snd b),
      fst (fst a) * snd (fst b) + snd (fst a) * snd (snd b)),
     (fst (snd a) * fst (fst b) + snd (snd a) * fst (snd b),
      fst (snd a) * snd (fst b) + snd (snd a) * snd (snd b)))"

definition mat_near :: "mat2 \<Rightarrow> mat2 \<Rightarrow> real \<Rightarrow> bool" where
  "mat_near a b eps \<longleftrightarrow>
    \<bar>fst (fst a) - fst (fst b)\<bar> < eps \<and> \<bar>snd (fst a) - snd (fst b)\<bar> < eps \<and>
    \<bar>fst (snd a) - fst (snd b)\<bar> < eps \<and> \<bar>snd (snd a) - snd (snd b)\<bar> < eps"

text \<open>The invariant of the data model.\<close>

definition lin2_valid :: "lin2 \<Rightarrow> bool" where
  "lin2_valid t \<longleftrightarrow>
    0 < m_sx t \<and> 0 < m_sy t \<and>
    - pi \<le> m_r t \<and> m_r t < pi \<and>
    - pi \<le> m_h t \<and> m_h t < pi \<and>
    \<not> feq (m_h t) (pi / 2) default_eps \<and> \<not> feq (m_h t) (- (pi / 2)) default_eps"

text \<open>A scale argument that the setter accepts: a pair of strictly positive numbers.\<close>

definition scale_ok :: "real list \<Rightarrow> bool" where
  "scale_ok scale \<longleftrightarrow> length scale = 2 \<and> 0 < scale ! 0 \<and> 0 < scale ! 1"

text \<open>
  A shear argument whose value in the principal range is within \<open>1e-6\<close> of \<open>pi / 2\<close> or of
  \<open>- pi / 2\<close>.
\<close>

definition shear_singular :: "real \<Rightarrow> bool" where
  "shear_singular shear \<longleftrightarrow>
    \<bar>radian_range shear - pi / 2\<bar> < 1 / 1000000 \<or> \<bar>radian_range shear + pi / 2\<bar> < 1 / 1000000"

text \<open>The call raised \<^verbatim>\<open>ValueError\<close>.\<close>

definition is_ValueError :: "error + 'a \<Rightarrow> bool" where
  "is_ValueError r = (case r of Inl (ValueError _) \<Rightarrow> True | _ \<Rightarrow> False)"

text \<open>The object that \<^verbatim>\<open>lin2()\<close> builds, and the same object once \<^verbatim>\<open>cleanse\<close> has run.\<close>

definition lin2_identity :: lin2 where
  "lin2_identity = \<lparr>m_sx = 1, m_sy = 1, m_r = 0, m_h = 0, m_dirty = True,
                    m_lx = 0, m_ly = 0, m_qx = 0, m_qy = 0\<rparr>"

definition lin2_identity_clean :: lin2 where
  "lin2_identity_clean = \<lparr>m_sx = 1, m_sy = 1, m_r = 0, m_h = 0, m_dirty = False,
                    m_lx = 1, m_ly = 1, m_qx = 0, m_qy = 0\<rparr>"

text \<open>
  The transform \<^verbatim>\<open>lin2(shear=1)\<close>, the same object once \<^verbatim>\<open>cleanse\<close> has run, the
  transform that \<^verbatim>\<open>~lin2(shear=1)\<close> returns, and \<^verbatim>\<open>lin2(shear=-1)\<close>.
\<close>

definition lin2_shear1 :: lin2 where
  "lin2_shear1 = \<lparr>m_sx = 1, m_sy = 1, m_r = 0, m_h = 1, m_dirty = True,
                  m_lx = 0, m_ly = 0, m_qx = 0, m_qy = 0\<rparr>"

definition lin2_shear1_clean :: lin2 where
  "lin2_shear1_clean = \<lparr>m_sx = 1, m_sy = 1, m_r = 0, m_h = 1, m_dirty = False,
                  m_lx = sqrt (1 + (sin 1)\<^sup>2), m_ly = cos 1, m_qx = arctan (sin 1), m_qy = 0\<rparr>"

definition lin2_shear1_inverse :: lin2 where
  "lin2_shear1_inverse = \<lparr>m_sx = 1, m_sy = sqrt (1 + (sin 1)\<^sup>2) / cos 1, m_r = 0,
                  m_h = pi - arctan (sin 1), m_dirty = True,
                  m_lx = 0, m_ly = 0, m_qx = 0, m_qy = 0\<rparr>"

definition lin2_shear_minus1 :: lin2 where
  "lin2_shear_minus1 = \<lparr>m_sx = 1, m_sy = 1, m_r = 0, m_h = - 1, m_dirty = True,
                  m_lx = 0, m_ly = 0, m_qx = 0, m_qy = 0\<rparr>"


section \<open>The principal range\<close>

lemma radian_range_sub_less: "radian_range_sub x < pi"
  by (induction x rule: radian_range_sub.induct) (subst radian_range_sub.simps, simp)

lemma radian_range_sub_id: "x < pi \<Longrightarrow> radian_range_sub x = x"
  by (subst radian_range_sub.simps) simp

lemma radian_range_sub_step: "pi \<le> x \<Longrightarrow> radian_range_sub x = radian_range_sub (x - pi)"
  by (subst radian_range_sub.simps) simp

lemma radian_range_sub_mult: "\<exists>k::int. x - radian_range_sub x = of_int k * pi"
proof (induction x rule: radian_range_sub.induct)
  case (1 rad)
  show ?case
  proof (cases "pi \<le> rad")
    case True
    from 1 True obtain k :: int
      where k: "rad - pi - radian_range_sub (rad - pi) = of_int k * pi"
      by blast
    have "rad - radian_range_sub rad = of_int (k + 1) * pi"
      using k radian_range_sub_step [OF True] by (simp add: algebra_simps)
    then show ?thesis by blast
  next
    case False
    then have "rad - radian_range_sub rad = of_int 0 * pi"
      by (simp add: radian_range_sub_id)
    then show ?thesis by blast
  qed
qed

lemma radian_range_add_ge: "- pi \<le> radian_range_add x"
  by (induction x rule: radian_range_add.induct) (subst radian_range_add.simps, simp)

lemma radian_range_add_less: "x < pi \<Longrightarrow> radian_range_add x < pi"
  by (induction x rule: radian_range_add.induct) (subst radian_range_add.simps, simp)

lemma radian_range_add_id: "- pi \<le> x \<Longrightarrow> radian_range_add x = x"
  by (subst radian_range_add.simps) simp

lemma radian_range_add_step: "x < - pi \<Longrightarrow> radian_range_add x = radian_range_add (x + pi)"
  by (subst radian_range_add.simps) simp

lemma radian_range_add_mult: "\<exists>k::int. x - radian_range_add x = of_int k * pi"
proof (induction x rule: radian_range_add.induct)
  case (1 rad)
  show ?case
  proof (cases "rad < - pi")
    case True
    from 1 True obtain k :: int
      where k: "rad + pi - radian_range_add (rad + pi) = of_int k * pi"
      by blast
    have "rad - radian_range_add rad = of_int (k - 1) * pi"
      using k radian_range_add_step [OF True] by (simp add: algebra_simps)
    then show ?thesis by blast
  next
    case False
    then have "rad - radian_range_add rad = of_int 0 * pi"
      by (simp add: radian_range_add_id)
    then show ?thesis by blast
  qed
qed

lemma radian_range_lower: "- pi \<le> radian_range x"
  unfolding radian_range_def by (rule radian_range_add_ge)

lemma radian_range_upper: "radian_range x < pi"
  unfolding radian_range_def by (rule radian_range_add_less [OF radian_range_sub_less])

lemma radian_range_id: "- pi \<le> x \<Longrightarrow> x < pi \<Longrightarrow> radian_range x = x"
  by (simp add: radian_range_def radian_range_sub_id radian_range_add_id)

lemma radian_range_mult: "\<exists>k::int. x - radian_range x = of_int k * pi"
proof -
  obtain k :: int where k: "x - radian_range_sub x = of_int k * pi"
    using radian_range_sub_mult by blast
  obtain j :: int
    where j: "radian_range_sub x - radian_range_add (radian_range_sub x) = of_int j * pi"
    using radian_range_add_mult by blast
  have "x - radian_range x = of_int (k + j) * pi"
    using k j by (simp add: radian_range_def algebra_simps)
  then show ?thesis by blast
qed

lemma radian_range_pi: "radian_range pi = 0"
  by (simp add: radian_range_def radian_range_sub_step radian_range_sub_id
      radian_range_add_id)

lemma radian_range_3pi2: "radian_range (3 * pi / 2) = pi / 2"
proof -
  have "radian_range_sub (3 * pi / 2) = radian_range_sub (3 * pi / 2 - pi)"
    by (rule radian_range_sub_step) simp
  also have "3 * pi / 2 - pi = pi / 2" by simp
  finally have a: "radian_range_sub (3 * pi / 2) = radian_range_sub (pi / 2)" .
  have b: "radian_range_sub (pi / 2) = pi / 2"
    by (rule radian_range_sub_id) simp
  have c: "radian_range_add (pi / 2) = pi / 2"
    by (rule radian_range_add_id) simp
  show ?thesis
    unfolding radian_range_def a b c ..
qed

lemma pi_ge_three: "3 \<le> pi"
proof -
  have "sin (pi / 6) \<le> pi / 6" by (rule sin_x_le_x) simp
  then show ?thesis by (simp add: sin_30)
qed

text \<open>
  In exact arithmetic \<^verbatim>\<open>radian_range\<close> returns a value in \<open>[-pi, pi)\<close> that differs
  from the input by an integer multiple of \<open>pi\<close>; it is the identity on \<open>[-pi, pi)\<close>; and
  it reduces with period \<open>pi\<close>, not \<open>2 pi\<close>: \<open>3 pi / 2\<close> goes to \<open>pi / 2\<close>.
\<close>

lemma radian_range_exact:
  "- pi \<le> radian_range x \<and> radian_range x < pi
   \<and> (\<exists>k::int. x - radian_range x = of_int k * pi)
   \<and> (- pi \<le> x \<and> x < pi \<longrightarrow> radian_range x = x)
   \<and> radian_range (3 * pi / 2) = pi / 2"
  using radian_range_lower [of x] radian_range_upper [of x] radian_range_mult [of x]
    radian_range_id [of x] radian_range_3pi2
  by blast


section \<open>Validation in the setters and the constructor\<close>

lemma set_scale_raises: "is_ValueError (fst (set_scale scale self)) \<longleftrightarrow> \<not> scale_ok scale"
  by (simp add: set_scale_def scale_ok_def is_ValueError_def)

lemma set_scale_accepts:
  "scale_ok scale \<Longrightarrow>
    set_scale scale self = (Inr (), self\<lparr>m_sx := scale ! 0, m_sy := scale ! 1, m_dirty := True\<rparr>)"
  by (simp add: set_scale_def scale_ok_def)

lemma set_shear_raises: "is_ValueError (fst (set_shear shear self)) \<longleftrightarrow> shear_singular shear"
  by (auto simp add: set_shear_def shear_singular_def is_ValueError_def feq_def fabs_def
      default_eps_def Let_def)

lemma set_shear_accepts:
  "\<not> shear_singular shear \<Longrightarrow>
    set_shear shear self = (Inr (), self\<lparr>m_h := radian_range shear, m_dirty := True\<rparr>)"
  by (auto simp add: set_shear_def shear_singular_def feq_def fabs_def default_eps_def Let_def)

lemma lin2_init_bad_scale:
  "\<not> scale_ok scale \<Longrightarrow> is_ValueError (lin2_init scale angle shear)"
  by (auto simp add: lin2_init_def set_scale_def scale_ok_def is_ValueError_def)

lemma lin2_init_good:
  "scale_ok scale \<Longrightarrow> \<not> shear_singular shear \<Longrightarrow>
    lin2_init scale angle shear =
      Inr (lin2_new\<lparr>m_sx := scale ! 0, m_sy := scale ! 1, m_r := radian_range angle,
                     m_h := radian_range shear, m_dirty := True\<rparr>)"
  by (simp add: lin2_init_def set_scale_accepts set_shear_accepts set_angle_def)

lemma set_shear_rejects:
  "shear_singular shear \<Longrightarrow> \<exists>msg. set_shear shear self = (Inl (ValueError msg), self)"
  by (auto simp add: set_shear_def shear_singular_def feq_def fabs_def default_eps_def Let_def)

lemma lin2_init_singular:
  assumes "scale_ok scale" and "shear_singular shear"
  shows "is_ValueError (lin2_init scale angle shear)"
proof -
  let ?s = "lin2_new\<lparr>m_sx := scale ! 0, m_sy := scale ! 1, m_dirty := True\<rparr>
              \<lparr>m_r := radian_range angle, m_dirty := True\<rparr>"
  obtain msg where "set_shear shear ?s = (Inl (ValueError msg), ?s)"
    using set_shear_rejects [OF assms(2)] by blast
  then show ?thesis
    using assms(1) by (simp add: lin2_init_def set_scale_accepts set_angle_def is_ValueError_def)
qed

lemma lin2_init_cases:
  "lin2_init scale angle shear = Inr t \<Longrightarrow>
    scale_ok scale \<and> \<not> shear_singular shear \<and>
    t = lin2_new\<lparr>m_sx := scale ! 0, m_sy := scale ! 1, m_r := radian_range angle,
                  m_h := radian_range shear, m_dirty := True\<rparr>"
  using lin2_init_bad_scale [of scale angle shear] lin2_init_singular [of scale shear angle]
    lin2_init_good [of scale shear angle]
  by (cases "scale_ok scale"; cases "shear_singular shear") (auto simp add: is_ValueError_def)

lemma lin2_init_valid: "lin2_init scale angle shear = Inr t \<Longrightarrow> lin2_valid t"
  using radian_range_lower [of angle] radian_range_upper [of angle]
    radian_range_lower [of shear] radian_range_upper [of shear]
  by (auto dest!: lin2_init_cases
      simp add: lin2_valid_def scale_ok_def shear_singular_def feq_def fabs_def default_eps_def)

lemma shear_singular_pi2: "shear_singular (pi / 2)"
  by (simp add: shear_singular_def radian_range_id)

lemma not_singular_0: "\<not> shear_singular 0"
  using pi_ge_three by (simp add: shear_singular_def radian_range_id)

lemma lin2_default_eq: "lin2_default = Inr lin2_identity"
  by (simp add: lin2_default_def lin2_init_good scale_ok_def not_singular_0 radian_range_id
      lin2_new_def lin2_identity_def)

text \<open>
  C5. The scale setter raises \<^verbatim>\<open>ValueError\<close> exactly when its argument is not a pair of
  strictly positive numbers, and stores an accepted pair. The constructor sets the scale
  first, so it raises on every such argument, among them \<open>(0, 1)\<close> and \<open>(-1, 2)\<close>, and
  a strictly positive pair becomes the scale of the new object (when the shear is accepted
  too).
\<close>

theorem scale_validation:
  "(is_ValueError (fst (set_scale scale self)) \<longleftrightarrow> \<not> scale_ok scale)
   \<and> (scale_ok scale \<longrightarrow>
        set_scale scale self =
          (Inr (), self\<lparr>m_sx := scale ! 0, m_sy := scale ! 1, m_dirty := True\<rparr>))
   \<and> (\<not> scale_ok scale \<longrightarrow> is_ValueError (lin2_init scale angle shear))
   \<and> (scale_ok scale \<and> \<not> shear_singular shear \<longrightarrow>
        (\<exists>t. lin2_init scale angle shear = Inr t \<and> get_scale t = scale))
   \<and> is_ValueError (lin2_init [0, 1] angle shear)
   \<and> is_ValueError (lin2_init [- 1, 2] angle shear)"
proof -
  have ex: "scale_ok scale \<and> \<not> shear_singular shear \<longrightarrow>
        (\<exists>t. lin2_init scale angle shear = Inr t \<and> get_scale t = scale)"
  proof
    assume ok: "scale_ok scale \<and> \<not> shear_singular shear"
    then have "length scale = 2" by (simp add: scale_ok_def)
    then obtain x y where "scale = [x, y]"
      by (cases scale; cases "tl scale") auto
    with ok show "\<exists>t. lin2_init scale angle shear = Inr t \<and> get_scale t = scale"
      by (simp add: lin2_init_good get_scale_def)
  qed
  have z: "is_ValueError (lin2_init [0, 1] angle shear)"
    by (rule lin2_init_bad_scale) (simp add: scale_ok_def)
  have n: "is_ValueError (lin2_init [- 1, 2] angle shear)"
    by (rule lin2_init_bad_scale) (simp add: scale_ok_def)
  show ?thesis
    using set_scale_raises [of scale self] set_scale_accepts [of scale self]
      lin2_init_bad_scale [of scale angle shear] ex z n
    by blast
qed

theorem scale_validation_witness:
  "scale_ok [2, 3] \<and> \<not> shear_singular 0
   \<and> set_scale [2, 3] lin2_new = (Inr (), lin2_new\<lparr>m_sx := 2, m_sy := 3, m_dirty := True\<rparr>)
   \<and> (\<exists>t. lin2_init [2, 3] 0 0 = Inr t \<and> get_scale t = [2, 3])
   \<and> \<not> scale_ok [1, 2, 3] \<and> is_ValueError (fst (set_scale [1, 2, 3] lin2_new))
   \<and> is_ValueError (lin2_init [1, 2, 3] 0 0)"
proof -
  have a: "scale_ok [2, 3]" by (simp add: scale_ok_def)
  have b: "\<not> scale_ok [1, 2, 3]" by (simp add: scale_ok_def)
  show ?thesis
    using a b not_singular_0 scale_validation [of "[2, 3]" lin2_new 0 0]
      scale_validation [of "[1, 2, 3]" lin2_new 0 0]
    by simp
qed

text \<open>
  C6. The shear setter first reduces its argument with \<^verbatim>\<open>radian_range\<close>. It raises
  \<^verbatim>\<open>ValueError\<close> exactly when the reduced value is within \<open>1e-6\<close> of \<open>pi / 2\<close> or of
  \<open>- pi / 2\<close>; otherwise it stores the reduced value and marks the cache dirty. The
  shear \<open>pi / 2\<close> is rejected, by the setter and by the constructor.
\<close>

theorem shear_validation:
  "(is_ValueError (fst (set_shear shear self)) \<longleftrightarrow> shear_singular shear)
   \<and> (\<not> shear_singular shear \<longrightarrow>
        set_shear shear self = (Inr (), self\<lparr>m_h := radian_range shear, m_dirty := True\<rparr>))
   \<and> is_ValueError (fst (set_shear (pi / 2) self))
   \<and> is_ValueError (lin2_init [1, 1] 0 (pi / 2))"
proof -
  have c: "is_ValueError (lin2_init [1, 1] 0 (pi / 2))"
    by (rule lin2_init_singular) (simp_all add: scale_ok_def shear_singular_pi2)
  show ?thesis
    using set_shear_raises [of shear self] set_shear_accepts [of shear self]
      set_shear_raises [of "pi / 2" self] shear_singular_pi2 c
    by blast
qed

theorem shear_validation_witness:
  "\<not> shear_singular 0
   \<and> set_shear 0 lin2_new = (Inr (), lin2_new\<lparr>m_h := 0, m_dirty := True\<rparr>)
   \<and> \<not> is_ValueError (fst (set_shear 0 lin2_new))"
  using not_singular_0 shear_validation [of 0 lin2_new]
  by (simp add: radian_range_id is_ValueError_def)

text \<open>
  C10. A setter that raises leaves the object as it was: when the scale setter or the
  shear setter returns an exception, every field (the four parameters, the dirty flag and
  the cache) has the value it had before the call.
\<close>

theorem setter_failure_atomic:
  "(fst (set_scale scale self) = Inl e \<longrightarrow> snd (set_scale scale self) = self)
   \<and> (fst (set_shear shear self) = Inl e' \<longrightarrow> snd (set_shear shear self) = self)"
  by (simp add: set_scale_def set_shear_def Let_def)

theorem setter_failure_atomic_witness:
  "fst (set_scale [0, 1] lin2_identity)
     = Inl (ValueError ''The first scale component is not positive.'')
   \<and> snd (set_scale [0, 1] lin2_identity) = lin2_identity
   \<and> fst (set_shear (pi / 2) lin2_identity)
     = Inl (ValueError ''Singular case detected. Shearing of right angle is not accepted.'')
   \<and> snd (set_shear (pi / 2) lin2_identity) = lin2_identity"
proof -
  have a: "fst (set_scale [0, 1] lin2_identity)
     = Inl (ValueError ''The first scale component is not positive.'')"
    by (simp add: set_scale_def)
  have b: "fst (set_shear (pi / 2) lin2_identity)
     = Inl (ValueError ''Singular case detected. Shearing of right angle is not accepted.'')"
    by (simp add: set_shear_def radian_range_id feq_def fabs_def default_eps_def)
  show ?thesis
    using a b setter_failure_atomic [of "[0, 1]" lin2_identity
        "ValueError ''The first scale component is not positive.''" "pi / 2"
        "ValueError ''Singular case detected. Shearing of right angle is not accepted.''"]
    by simp
qed


section \<open>The identity transform and the invariant\<close>

lemma hypot_1_0 [simp]: "hypot 1 0 = 1"
  by (simp add: hypot_def)

lemma hypot_0_1 [simp]: "hypot 0 1 = 1"
  by (simp add: hypot_def)

lemma atan2_0_1 [simp]: "atan2 0 1 = 0"
  by (simp add: atan2_def)

lemma radian_range_0 [simp]: "radian_range 0 = 0"
  by (simp add: radian_range_id)

lemma cleanse_identity: "cleanse lin2_identity = lin2_identity_clean"
  by (simp add: cleanse_def lin2_identity_def lin2_identity_clean_def)

lemma cleanse_identity_clean: "cleanse lin2_identity_clean = lin2_identity_clean"
  by (simp add: cleanse_def lin2_identity_clean_def)

lemma lin2_init_identity: "lin2_init [1, 1] 0 0 = Inr lin2_identity"
  using lin2_default_eq by (simp add: lin2_default_def)

lemma from_matrix_identity: "from_matrix ((1, 0), (0, 1)) = Inr lin2_identity"
  by (simp add: from_matrix_def lin2_init_identity)

lemma cmul_matrix_identity: "cmul_matrix lin2_identity_clean lin2_identity = ((1, 0), (0, 1))"
  by (simp add: cmul_matrix_def lin2_identity_def lin2_identity_clean_def)

lemma lin2_mul_identity:
  "lin2_mul lin2_identity lin2_identity = (lin2_identity_clean, Inr lin2_identity)"
  by (simp add: lin2_mul_def lin2_cmul_def cleanse_identity cmul_matrix_identity
      from_matrix_identity)

lemma lin2_mul_identity_clean:
  "lin2_mul lin2_identity_clean lin2_identity = (lin2_identity_clean, Inr lin2_identity)"
  by (simp add: lin2_mul_def lin2_cmul_def cleanse_identity_clean cmul_matrix_identity
      from_matrix_identity)

lemma lin2_invert_identity:
  "lin2_invert lin2_identity = (lin2_identity_clean, Inr lin2_identity)"
proof -
  have "m_h lin2_identity_clean = 0" "m_qx lin2_identity_clean = 0"
    "m_qy lin2_identity_clean = 0" "m_lx lin2_identity_clean = 1"
    "m_ly lin2_identity_clean = 1"
    by (simp_all add: lin2_identity_clean_def)
  then show ?thesis
    by (simp add: lin2_invert_def cleanse_identity radian_range_pi lin2_init_identity)
qed

lemma lin2_truediv_identity:
  "lin2_truediv lin2_identity lin2_identity
     = ((lin2_identity_clean, lin2_identity_clean), Inr lin2_identity)"
  by (simp add: lin2_truediv_def lin2_invert_identity lin2_mul_identity)

lemma lin2_mod_identity:
  "lin2_mod lin2_identity lin2_identity = ((lin2_identity_clean, lin2_identity), Inr lin2_identity)"
  by (simp add: lin2_mod_def lin2_invert_identity lin2_mul_identity)

lemma conjugate_identity:
  "conjugate lin2_identity lin2_identity
     = ((lin2_identity_clean, lin2_identity_clean), Inr lin2_identity)"
  by (simp add: conjugate_def lin2_truediv_identity lin2_mul_identity_clean)

lemma lin2_valid_identity: "lin2_valid lin2_identity"
  using pi_ge_three
  by (simp add: lin2_valid_def lin2_identity_def feq_def fabs_def default_eps_def)

lemma set_scale_valid: "lin2_valid u \<Longrightarrow> lin2_valid (snd (set_scale scale u))"
  by (simp add: set_scale_def lin2_valid_def)

lemma set_angle_valid: "lin2_valid u \<Longrightarrow> lin2_valid (snd (set_angle angle u))"
  using radian_range_lower [of angle] radian_range_upper [of angle]
  by (simp add: set_angle_def lin2_valid_def)

lemma set_shear_valid: "lin2_valid u \<Longrightarrow> lin2_valid (snd (set_shear shear u))"
  using radian_range_lower [of shear] radian_range_upper [of shear]
  by (simp add: set_shear_def lin2_valid_def Let_def)

lemma cleanse_valid: "lin2_valid u \<Longrightarrow> lin2_valid (cleanse u)"
  by (simp add: cleanse_def lin2_valid_def Let_def)

lemma from_matrix_valid: "from_matrix mat = Inr t \<Longrightarrow> lin2_valid t"
  unfolding from_matrix_def Let_def by (rule lin2_init_valid)

lemma lin2_mul_valid: "snd (lin2_mul a b) = Inr t \<Longrightarrow> lin2_valid t"
  by (simp add: lin2_mul_def lin2_cmul_def Let_def from_matrix_valid)

lemma lin2_mul_valid_pair: "lin2_mul a b = (s, Inr t) \<Longrightarrow> lin2_valid t"
  using lin2_mul_valid [of a b t] by simp

lemma lin2_invert_valid: "snd (lin2_invert a) = Inr t \<Longrightarrow> lin2_valid t"
  by (auto simp add: lin2_invert_def Let_def split: if_splits dest: lin2_init_valid)

lemma lin2_truediv_valid: "snd (lin2_truediv a b) = Inr t \<Longrightarrow> lin2_valid t"
  by (auto simp add: lin2_truediv_def split: prod.splits sum.splits
      dest: lin2_mul_valid_pair lin2_mul_valid)

lemma lin2_mod_valid: "snd (lin2_mod a b) = Inr t \<Longrightarrow> lin2_valid t"
  by (auto simp add: lin2_mod_def split: prod.splits sum.splits
      dest: lin2_mul_valid_pair lin2_mul_valid)

lemma conjugate_valid: "snd (conjugate a b) = Inr t \<Longrightarrow> lin2_valid t"
  by (auto simp add: conjugate_def split: prod.splits sum.splits
      dest: lin2_mul_valid_pair lin2_mul_valid)

text \<open>
  C8. The invariant \<open>lin2_valid\<close> (both scales positive, angle and shear in \<open>[-pi, pi)\<close>,
  shear not within \<open>1e-6\<close> of \<open>pi / 2\<close> or \<open>- pi / 2\<close>) holds of every object the
  constructor returns; each setter and \<^verbatim>\<open>cleanse\<close> keep it, whether the setter raises or
  not; and every transform returned by \<^verbatim>\<open>from_matrix\<close>, \<^verbatim>\<open>*\<close>, \<^verbatim>\<open>~\<close>, \<^verbatim>\<open>/\<close>,
  \<^verbatim>\<open>%\<close> or \<^verbatim>\<open>conjugate\<close> satisfies it.
\<close>

theorem invariant_preserved:
  "(lin2_init scale angle shear = Inr t \<longrightarrow> lin2_valid t)
   \<and> (lin2_valid u \<longrightarrow>
        lin2_valid (snd (set_scale scale' u)) \<and> lin2_valid (snd (set_angle angle' u))
        \<and> lin2_valid (snd (set_shear shear' u)) \<and> lin2_valid (cleanse u))
   \<and> (from_matrix mat = Inr t1 \<longrightarrow> lin2_valid t1)
   \<and> (snd (lin2_mul a b) = Inr t2 \<longrightarrow> lin2_valid t2)
   \<and> (snd (lin2_invert a) = Inr t3 \<longrightarrow> lin2_valid t3)
   \<and> (snd (lin2_truediv a b) = Inr t4 \<longrightarrow> lin2_valid t4)
   \<and> (snd (lin2_mod a b) = Inr t5 \<longrightarrow> lin2_valid t5)
   \<and> (snd (conjugate a b) = Inr t6 \<longrightarrow> lin2_valid t6)"
  using lin2_init_valid [of scale angle shear t] set_scale_valid [of u scale']
    set_angle_valid [of u angle'] set_shear_valid [of u shear'] cleanse_valid [of u]
    from_matrix_valid [of mat t1] lin2_mul_valid [of a b t2] lin2_invert_valid [of a t3]
    lin2_truediv_valid [of a b t4] lin2_mod_valid [of a b t5] conjugate_valid [of a b t6]
  by blast

theorem invariant_preserved_witness:
  "lin2_init [1, 1] 0 0 = Inr lin2_identity
   \<and> from_matrix ((1, 0), (0, 1)) = Inr lin2_identity
   \<and> snd (lin2_mul lin2_identity lin2_identity) = Inr lin2_identity
   \<and> snd (lin2_invert lin2_identity) = Inr lin2_identity
   \<and> snd (lin2_truediv lin2_identity lin2_identity) = Inr lin2_identity
   \<and> snd (lin2_mod lin2_identity lin2_identity) = Inr lin2_identity
   \<and> snd (conjugate lin2_identity lin2_identity) = Inr lin2_identity
   \<and> lin2_valid lin2_identity
   \<and> lin2_valid (snd (set_scale [2, 3] lin2_identity))
   \<and> lin2_valid (snd (set_angle 10 lin2_identity))
   \<and> lin2_valid (snd (set_shear 1 lin2_identity))
   \<and> lin2_valid (cleanse lin2_identity)"
  using invariant_preserved [of "[1, 1]" 0 0 lin2_identity lin2_identity "[2, 3]" 10 1
      "((1, 0), (0, 1))" lin2_identity lin2_identity lin2_identity lin2_identity
      lin2_identity lin2_identity lin2_identity lin2_identity]
  by (simp add: lin2_init_identity from_matrix_identity lin2_mul_identity
      lin2_invert_identity lin2_truediv_identity lin2_mod_identity conjugate_identity)

text \<open>
  C9. \<^verbatim>\<open>lin2()\<close> is the identity: its scale is \<open>[1, 1]\<close>, its angle and shear are \<open>0\<close>,
  its matrix is the unit matrix, and inverting it returns a transform equal to it.
\<close>

theorem default_is_identity:
  "lin2_default = Inr lin2_identity
   \<and> get_scale lin2_identity = [1, 1] \<and> get_angle lin2_identity = 0
   \<and> get_shear lin2_identity = 0
   \<and> matrix lin2_identity = ((1, 0), (0, 1))
   \<and> snd (lin2_invert lin2_identity) = Inr lin2_identity"
proof -
  have "get_scale lin2_identity = [1, 1]" "get_angle lin2_identity = 0"
    "get_shear lin2_identity = 0" "matrix lin2_identity = ((1, 0), (0, 1))"
    by (simp_all add: get_scale_def get_angle_def get_shear_def matrix_def lin2_identity_def)
  then show ?thesis
    by (simp add: lin2_default_eq lin2_invert_identity)
qed

text \<open>
  C3. \<^verbatim>\<open>__lshift__\<close> on the identity and the vector \<open>(1, 2)\<close>, of shape \<open>(2,)\<close>: the
  call raises \<^verbatim>\<open>AttributeError\<close>, because the class has no attribute
  \<^verbatim>\<open>to_matrix\<close> (the matrix is the property \<^verbatim>\<open>matrix\<close>); the product of the matrix and
  the vector, which the operator is meant to return, is \<open>(1, 2)\<close>.
\<close>

theorem lshift_attribute_error:
  "lin2_valid lin2_identity
   \<and> shape [1, 2] = [2]
   \<and> lin2_lshift lin2_identity [1, 2] = Inl (AttributeError ''to_matrix'')
   \<and> np_dot (matrix lin2_identity) [1, 2] = [1, 2]"
proof -
  have "matrix lin2_identity = ((1, 0), (0, 1))"
    by (simp add: matrix_def lin2_identity_def)
  then have "np_dot (matrix lin2_identity) [1, 2] = [1, 2]"
    by (simp add: np_dot_def)
  moreover have "lin2_lshift lin2_identity [1, 2] = Inl (AttributeError ''to_matrix'')"
    by (simp add: shape_def lin2_lshift_def lin2_getattr_def lin2_attributes_def)
  ultimately show ?thesis
    by (simp add: lin2_valid_identity shape_def)
qed


section \<open>The product and the inverse\<close>

text \<open>The cache holds the rows of the matrix in polar form.\<close>

lemma hypot_scaled:
  assumes "x \<noteq> 0"
  shows "hypot x y = \<bar>x\<bar> * sqrt (1 + (y / x)\<^sup>2)"
proof -
  have "x\<^sup>2 + y\<^sup>2 = x\<^sup>2 * (1 + (y / x)\<^sup>2)"
    using assms by (simp add: power_divide field_simps)
  then show ?thesis
    by (simp add: hypot_def real_sqrt_mult)
qed

lemma one_plus_square_neq_0: "1 + t\<^sup>2 \<noteq> (0::real)"
proof -
  have "0 < 1 + t\<^sup>2" by (simp add: add_pos_nonneg)
  then show ?thesis by simp
qed

lemma hypot_cos_atan2: "hypot x y * cos (atan2 y x) = x"
proof -
  consider "0 < x" | "x < 0" | "x = 0" by linarith
  then show ?thesis
  proof cases
    case 1
    then show ?thesis
      by (simp add: atan2_def hypot_scaled cos_arctan one_plus_square_neq_0)
  next
    case 2
    then show ?thesis
      by (simp add: atan2_def hypot_scaled cos_arctan one_plus_square_neq_0)
  next
    case 3
    then show ?thesis
      by (simp add: atan2_def hypot_def)
  qed
qed

lemma hypot_sin_atan2: "hypot x y * sin (atan2 y x) = y"
proof -
  consider "0 < x" | "x < 0" | "x = 0" by linarith
  then show ?thesis
  proof cases
    case 1
    then show ?thesis
      by (simp add: atan2_def hypot_scaled sin_arctan one_plus_square_neq_0)
  next
    case 2
    then show ?thesis
      by (simp add: atan2_def hypot_scaled sin_arctan one_plus_square_neq_0)
  next
    case 3
    then show ?thesis
      by (simp add: atan2_def hypot_def)
  qed
qed

lemma polar_cos_add: "hypot x y * cos (atan2 y x + t) = x * cos t - y * sin t"
proof -
  have "hypot x y * cos (atan2 y x + t)
      = hypot x y * cos (atan2 y x) * cos t - hypot x y * sin (atan2 y x) * sin t"
    by (simp add: cos_add algebra_simps)
  then show ?thesis
    by (simp only: hypot_cos_atan2 hypot_sin_atan2)
qed

lemma polar_sin_add: "hypot x y * sin (atan2 y x + t) = y * cos t + x * sin t"
proof -
  have "hypot x y * sin (atan2 y x + t)
      = hypot x y * sin (atan2 y x) * cos t + hypot x y * cos (atan2 y x) * sin t"
    by (simp add: sin_add algebra_simps)
  then show ?thesis
    by (simp only: hypot_cos_atan2 hypot_sin_atan2)
qed

lemma polar_cos_add_scaled:
  "hypot x y * k * cos (atan2 y x + t) = k * (x * cos t - y * sin t)"
proof -
  have "hypot x y * k * cos (atan2 y x + t) = k * (hypot x y * cos (atan2 y x + t))"
    by simp
  then show ?thesis
    by (simp only: polar_cos_add)
qed

lemma polar_sin_add_scaled:
  "hypot x y * k * sin (atan2 y x + t) = k * (y * cos t + x * sin t)"
proof -
  have "hypot x y * k * sin (atan2 y x + t) = k * (hypot x y * sin (atan2 y x + t))"
    by simp
  then show ?thesis
    by (simp only: polar_sin_add)
qed

text \<open>
  The array that \<^verbatim>\<open>__cmul__\<close> builds from the cache of its left operand is the product
  of the matrices of the two operands.
\<close>

lemma cmul_matrix_is_product:
  assumes "m_dirty a"
  shows "cmul_matrix (cleanse a) b = mat_mul (matrix a) (matrix b)"
proof -
  define c0 where "c0 = m_sx a * cos (m_r a)"
  define s0 where "s0 = m_sy a * sin (m_r a + m_h a)"
  define c1 where "c1 = m_sy a * cos (m_r a + m_h a)"
  define s1 where "s1 = m_sx a * sin (m_r a)"
  have cl: "m_lx (cleanse a) = hypot c0 s0" "m_qx (cleanse a) = atan2 s0 c0"
    "m_ly (cleanse a) = hypot c1 s1" "m_qy (cleanse a) = atan2 s1 c1"
    using assms by (simp_all add: cleanse_def Let_def c0_def s0_def c1_def s1_def)
  have e00: "hypot c0 s0 * m_sx b * cos (atan2 s0 c0 + m_r b)
      = c0 * (m_sx b * cos (m_r b)) + - s0 * (m_sx b * sin (m_r b))"
    unfolding polar_cos_add_scaled by (simp add: algebra_simps)
  have e01: "- hypot c0 s0 * m_sy b * sin (atan2 s0 c0 + m_r b + m_h b)
      = c0 * (- m_sy b * sin (m_r b + m_h b)) + - s0 * (m_sy b * cos (m_r b + m_h b))"
    unfolding add.assoc [of "atan2 s0 c0"] minus_mult_left [symmetric] polar_sin_add_scaled
    by (simp add: algebra_simps)
  have e10: "hypot c1 s1 * m_sx b * sin (atan2 s1 c1 + m_r b)
      = s1 * (m_sx b * cos (m_r b)) + c1 * (m_sx b * sin (m_r b))"
    unfolding polar_sin_add_scaled by (simp add: algebra_simps)
  have e11: "hypot c1 s1 * m_sy b * cos (atan2 s1 c1 + m_r b + m_h b)
      = s1 * (- m_sy b * sin (m_r b + m_h b)) + c1 * (m_sy b * cos (m_r b + m_h b))"
    unfolding add.assoc [of "atan2 s1 c1"] polar_cos_add_scaled by (simp add: algebra_simps)
  show ?thesis
    unfolding cmul_matrix_def mat_mul_def matrix_def Let_def cl fst_conv snd_conv
      c0_def [symmetric] s0_def [symmetric] c1_def [symmetric] s1_def [symmetric]
    using e00 e01 e10 e11
    by (simp add: s0_def)
qed

lemma two_less_pi: "2 < pi"
  using pi_ge_three by arith

lemma one_less_pi_half: "(1::real) < pi / 2"
  using two_less_pi by simp

lemma cos_1_pos: "0 < cos (1::real)"
  by (rule cos_gt_zero) (simp_all add: two_less_pi)

lemma sin_1_ge_half: "1 / 2 \<le> sin (1::real)"
proof -
  have "sin (pi / 6) \<le> sin (1::real)"
    using pi_less_4 pi_ge_three two_less_pi
    by (intro sin_monotone_2pi_le) simp_all
  then show ?thesis by (simp add: sin_30)
qed

lemma sin_1_pos: "0 < sin (1::real)"
  using sin_1_ge_half by simp

lemma not_singular_1: "\<not> shear_singular 1"
  using pi_ge_three by (simp add: shear_singular_def radian_range_id)

lemma not_singular_minus1: "\<not> shear_singular (- 1)"
  using pi_ge_three by (simp add: shear_singular_def radian_range_id)

lemma lin2_init_shear1: "lin2_init [1, 1] 0 1 = Inr lin2_shear1"
  using pi_ge_three
  by (simp add: lin2_init_good scale_ok_def not_singular_1 radian_range_id lin2_new_def
      lin2_shear1_def)

lemma lin2_init_shear_minus1: "lin2_init [1, 1] 0 (- 1) = Inr lin2_shear_minus1"
  using pi_ge_three
  by (simp add: lin2_init_good scale_ok_def not_singular_minus1 radian_range_id lin2_new_def
      lin2_shear_minus1_def)

lemma atan2_shear1: "atan2 (- sin 1) (cos 1) = - 1"
proof -
  have "arctan (tan (- 1)) = - (1::real)"
    using two_less_pi by (intro arctan_tan) simp_all
  moreover have "tan (- 1) = - sin 1 / cos (1::real)"
    by (simp add: tan_def)
  ultimately show ?thesis
    using cos_1_pos by (simp add: atan2_def)
qed

lemma hypot_sin_cos: "hypot (- sin x) (cos x) = 1"
  by (simp add: hypot_def)

lemma cmul_matrix_identity_shear1:
  "cmul_matrix lin2_identity_clean lin2_shear1 = ((1, - sin 1), (0, cos 1))"
  by (simp add: cmul_matrix_def lin2_identity_clean_def lin2_shear1_def)

lemma from_matrix_shear1: "from_matrix ((1, - sin 1), (0, cos 1)) = Inr lin2_shear_minus1"
  using pi_ge_three
  by (simp add: from_matrix_def hypot_sin_cos atan2_shear1 radian_range_id
      lin2_init_shear_minus1)

lemma lin2_mul_identity_shear1:
  "lin2_mul lin2_identity lin2_shear1 = (lin2_identity_clean, Inr lin2_shear_minus1)"
  by (simp add: lin2_mul_def lin2_cmul_def cleanse_identity cmul_matrix_identity_shear1
      from_matrix_shear1)

lemma matrix_shear1: "matrix lin2_shear1 = ((1, - sin 1), (0, cos 1))"
  by (simp add: matrix_def lin2_shear1_def)

lemma matrix_shear_minus1: "matrix lin2_shear_minus1 = ((1, sin 1), (0, cos 1))"
  by (simp add: matrix_def lin2_shear_minus1_def)

lemma matrix_identity: "matrix lin2_identity = ((1, 0), (0, 1))"
  by (simp add: matrix_def lin2_identity_def)

lemma lin2_valid_shear1: "lin2_valid lin2_shear1"
  using lin2_init_shear1 by (rule lin2_init_valid)

text \<open>
  C1. The product of the identity \<^verbatim>\<open>lin2()\<close> and \<^verbatim>\<open>lin2(shear=1)\<close>, both valid:
  \<^verbatim>\<open>__cmul__\<close> builds the product of the two matrices, \<open>((1, - sin 1), (0, cos 1))\<close>,
  and \<^verbatim>\<open>from_matrix\<close> turns it into the transform of shear \<open>-1\<close>, since it computes
  the shear as \<open>atan2 a1 a3 - r\<close> although the entry \<open>a1\<close> of a matrix is
  \<open>- sy * sin (r + h)\<close>. The matrix of the result is \<open>((1, sin 1), (0, cos 1))\<close>: its
  entry \<open>[0][1]\<close> differs from that of the matrix product by \<open>2 * sin 1\<close>, more than \<open>1\<close>.
\<close>

theorem mul_not_matrix_product:
  "lin2_default = Inr lin2_identity \<and> lin2_init [1, 1] 0 1 = Inr lin2_shear1
   \<and> lin2_valid lin2_identity \<and> lin2_valid lin2_shear1
   \<and> snd (lin2_mul lin2_identity lin2_shear1) = Inr lin2_shear_minus1
   \<and> matrix lin2_shear_minus1 = ((1, sin 1), (0, cos 1))
   \<and> mat_mul (matrix lin2_identity) (matrix lin2_shear1) = ((1, - sin 1), (0, cos 1))
   \<and> 1 \<le> \<bar>sin 1 - (- sin (1::real))\<bar>
   \<and> \<not> mat_near (matrix lin2_shear_minus1)
          (mat_mul (matrix lin2_identity) (matrix lin2_shear1)) default_eps"
proof -
  have prod: "mat_mul (matrix lin2_identity) (matrix lin2_shear1) = ((1, - sin 1), (0, cos 1))"
    by (simp add: mat_mul_def matrix_identity matrix_shear1)
  have gap: "1 \<le> \<bar>sin 1 - (- sin (1::real))\<bar>"
    using sin_1_ge_half by simp
  then have far: "\<not> mat_near (matrix lin2_shear_minus1)
          (mat_mul (matrix lin2_identity) (matrix lin2_shear1)) default_eps"
    unfolding prod matrix_shear_minus1 by (simp add: mat_near_def default_eps_def)
  show ?thesis
    using prod gap far
    by (simp add: lin2_default_eq lin2_init_shear1 lin2_valid_identity lin2_valid_shear1
        lin2_mul_identity_shear1 matrix_shear_minus1)
qed

lemma root_pos: "0 < sqrt (1 + (sin (1::real))\<^sup>2)"
  by (simp add: add_pos_nonneg)

lemma arctan_sin_1_pos: "0 < arctan (sin (1::real))"
  using arctan_monotone [OF sin_1_pos] by simp

lemma arctan_sin_1_le: "arctan (sin (1::real)) \<le> pi / 4"
  using arctan_monotone' [of "sin (1::real)" 1] by (simp add: arctan_one)

lemma cleanse_shear1: "cleanse lin2_shear1 = lin2_shear1_clean"
proof -
  have "hypot 1 (sin 1) = sqrt (1 + (sin (1::real))\<^sup>2)"
    by (simp add: hypot_def)
  moreover have "atan2 (sin 1) 1 = arctan (sin (1::real))"
    by (simp add: atan2_def)
  moreover have "hypot (cos 1) 0 = cos (1::real)"
    using cos_1_pos by (simp add: hypot_def)
  moreover have "atan2 0 (cos (1::real)) = 0"
    using cos_1_pos by (simp add: atan2_def)
  ultimately show ?thesis
    by (simp add: cleanse_def lin2_shear1_def lin2_shear1_clean_def Let_def)
qed

lemma radian_range_shear1_inverse:
  "radian_range (pi - arctan (sin (1::real))) = pi - arctan (sin 1)"
  using arctan_sin_1_pos arctan_sin_1_le pi_ge_three
  by (intro radian_range_id) simp_all

lemma not_singular_shear1_inverse: "\<not> shear_singular (pi - arctan (sin (1::real)))"
  using arctan_sin_1_pos arctan_sin_1_le pi_ge_three
  by (simp add: shear_singular_def radian_range_shear1_inverse)

lemma lin2_init_shear1_inverse:
  "lin2_init [1, sqrt (1 + (sin 1)\<^sup>2) / cos 1] 0 (pi - arctan (sin 1))
     = Inr lin2_shear1_inverse"
proof -
  have "scale_ok [1, sqrt (1 + (sin 1)\<^sup>2) / cos (1::real)]"
    using root_pos cos_1_pos by (simp add: scale_ok_def)
  then show ?thesis
    by (simp add: lin2_init_good not_singular_shear1_inverse radian_range_shear1_inverse
        lin2_new_def lin2_shear1_inverse_def)
qed

lemma lin2_invert_shear1:
  "lin2_invert lin2_shear1 = (lin2_shear1_clean, Inr lin2_shear1_inverse)"
proof -
  have fields: "m_h lin2_shear1_clean = 1" "m_qx lin2_shear1_clean = arctan (sin 1)"
    "m_qy lin2_shear1_clean = 0" "m_lx lin2_shear1_clean = sqrt (1 + (sin 1)\<^sup>2)"
    "m_ly lin2_shear1_clean = cos 1"
    by (simp_all add: lin2_shear1_clean_def)
  have d: "cos (arctan (sin (1::real))) = 1 / sqrt (1 + (sin 1)\<^sup>2)"
    by (rule cos_arctan)
  have nz: "sqrt (1 + (sin (1::real))\<^sup>2) \<noteq> 0" "cos (1::real) \<noteq> 0"
    using root_pos cos_1_pos by simp_all
  have band: "- (pi / 2) < (1::real)" "(1::real) < pi / 2"
    using two_less_pi by simp_all
  show ?thesis
    unfolding lin2_invert_def cleanse_shear1 Let_def fields
    using nz band
    by (simp add: d radian_range_shear1_inverse lin2_init_shear1_inverse)
qed

lemma matrix_shear1_inverse:
  "matrix lin2_shear1_inverse = ((1, - (sin 1 / cos 1)), (0, - (1 / cos 1)))"
proof -
  have s: "sin (arctan (sin (1::real))) = sin 1 / sqrt (1 + (sin 1)\<^sup>2)"
    by (rule sin_arctan)
  have c: "cos (arctan (sin (1::real))) = 1 / sqrt (1 + (sin 1)\<^sup>2)"
    by (rule cos_arctan)
  have nz: "sqrt (1 + (sin (1::real))\<^sup>2) \<noteq> 0"
    using root_pos by simp
  show ?thesis
    using nz by (simp add: matrix_def lin2_shear1_inverse_def s c)
qed

lemma cmul_matrix_shear1_inverse:
  "cmul_matrix lin2_shear1_clean lin2_shear1_inverse = ((1, 0), (0, - 1))"
proof -
  have d: "cos (arctan (sin (1::real))) = 1 / sqrt (1 + (sin 1)\<^sup>2)"
    by (rule cos_arctan)
  have nz: "sqrt (1 + (sin (1::real))\<^sup>2) \<noteq> 0" "cos (1::real) \<noteq> 0"
    using root_pos cos_1_pos by simp_all
  show ?thesis
    using nz by (simp add: cmul_matrix_def lin2_shear1_clean_def lin2_shear1_inverse_def d)
qed

text \<open>
  C2. The inverse of the valid transform \<^verbatim>\<open>lin2(shear=1)\<close>: \<^verbatim>\<open>__invert__\<close> takes its
  first branch and returns the shear \<open>pi - arctan (sin 1)\<close>, whose cosine is negative. The
  matrix of the result is the inverse matrix with its second column negated: the product of
  the matrix of the transform and the matrix of its inverse is \<open>((1, 0), (0, -1))\<close>, not
  the unit matrix, and this is also the array that \<^verbatim>\<open>__cmul__\<close> builds for the two.
\<close>

theorem invert_not_inverse:
  "lin2_init [1, 1] 0 1 = Inr lin2_shear1 \<and> lin2_valid lin2_shear1
   \<and> lin2_invert lin2_shear1 = (lin2_shear1_clean, Inr lin2_shear1_inverse)
   \<and> mat_mul (matrix lin2_shear1) (matrix lin2_shear1_inverse) = ((1, 0), (0, - 1))
   \<and> cmul_matrix lin2_shear1_clean lin2_shear1_inverse = ((1, 0), (0, - 1))
   \<and> \<not> mat_near (mat_mul (matrix lin2_shear1) (matrix lin2_shear1_inverse))
          ((1, 0), (0, 1)) default_eps"
proof -
  have nz: "cos (1::real) \<noteq> 0"
    using cos_1_pos by simp
  have prod: "mat_mul (matrix lin2_shear1) (matrix lin2_shear1_inverse) = ((1, 0), (0, - 1))"
    using nz by (simp add: mat_mul_def matrix_shear1 matrix_shear1_inverse)
  have far: "\<not> mat_near (mat_mul (matrix lin2_shear1) (matrix lin2_shear1_inverse))
          ((1, 0), (0, 1)) default_eps"
    unfolding prod by (simp add: mat_near_def default_eps_def)
  show ?thesis
    using prod far
    by (simp add: lin2_init_shear1 lin2_valid_shear1 lin2_invert_shear1
        cmul_matrix_shear1_inverse)
qed

text \<open>
  In exact arithmetic the array \<open>((1, 0), (0, -1))\<close> lies on the branch cut of
  \<^verbatim>\<open>atan2\<close>: \<open>atan2 0 (-1) = pi\<close>, which \<^verbatim>\<open>radian_range\<close> reduces to \<open>0\<close>, so that
  \<^verbatim>\<open>from_matrix\<close> returns the identity for it. With doubles the entry \<open>[0][1]\<close> is a
  rounding residue, and a negative one gives \<open>atan2 = - pi\<close>, which is kept: the shear of
  the product is then \<open>- pi\<close> and its matrix has \<open>-1\<close> in the entry \<open>[1][1]\<close>.
\<close>

lemma from_matrix_reflection: "from_matrix ((1, 0), (0, - 1)) = Inr lin2_identity"
proof -
  have "hypot 0 (- 1) = 1"
    by (simp add: hypot_def)
  moreover have "atan2 0 (- 1) = pi"
    by (simp add: atan2_def)
  ultimately show ?thesis
    by (simp add: from_matrix_def radian_range_pi lin2_init_identity)
qed


section \<open>The values of the inverse of \<^verbatim>\<open>lin2(shear=1)\<close>\<close>

lemma sum_below_13:
  "(\<Sum>m<13. f m) = f 0 + f 1 + f 2 + f 3 + f 4 + f 5 + f 6 + f 7 + f 8 + f 9 + f 10 + f 11 + f 12"
  for f :: "nat \<Rightarrow> real"
  by (simp add: eval_nat_numeral lessThan_Suc)

lemma sin_coeff_values:
  "sin_coeff (Suc 0) = 1" "sin_coeff 2 = 0" "sin_coeff 3 = - 1 / 6" "sin_coeff 4 = 0"
  "sin_coeff 5 = 1 / 120" "sin_coeff 6 = 0" "sin_coeff 7 = - 1 / 5040" "sin_coeff 8 = 0"
  "sin_coeff 9 = 1 / 362880" "sin_coeff 10 = 0" "sin_coeff 11 = - 1 / 39916800"
  "sin_coeff 12 = 0"
  by (simp_all add: sin_coeff_def fact_numeral)

lemma sin_partial_sum:
  "(\<Sum>m<13. sin_coeff m * x ^ m)
     = x - x^3 / 6 + x^5 / 120 - x^7 / 5040 + x^9 / 362880 - x^11 / 39916800"
  for x :: real
  unfolding sum_below_13 by (simp add: sin_coeff_values)

lemma fact_13: "(fact 13 :: real) = 6227020800"
  by (simp add: fact_numeral)

lemma sin_taylor:
  "\<bar>sin x - (x - x^3 / 6 + x^5 / 120 - x^7 / 5040 + x^9 / 362880 - x^11 / 39916800)\<bar>
     \<le> \<bar>x\<bar> ^ 13 / 6227020800"
  for x :: real
proof -
  have "\<bar>sin x - (\<Sum>m<13. sin_coeff m * x ^ m)\<bar> \<le> inverse (fact 13) * \<bar>x\<bar> ^ 13"
    by (rule Maclaurin_sin_bound)
  also have "inverse (fact 13) * \<bar>x\<bar> ^ 13 = \<bar>x\<bar> ^ 13 / 6227020800"
    unfolding fact_13 by (simp only: divide_inverse mult.commute)
  finally show ?thesis
    unfolding sin_partial_sum .
qed

lemma sin_upper:
  "0 \<le> x \<Longrightarrow>
    sin x \<le> x - x^3 / 6 + x^5 / 120 - x^7 / 5040 + x^9 / 362880 - x^11 / 39916800
               + x^13 / 6227020800"
  for x :: real
  using sin_taylor [of x] by (simp only: abs_le_iff abs_of_nonneg) linarith

lemma sin_lower:
  "0 \<le> x \<Longrightarrow>
    x - x^3 / 6 + x^5 / 120 - x^7 / 5040 + x^9 / 362880 - x^11 / 39916800
      - x^13 / 6227020800 \<le> sin x"
  for x :: real
  using sin_taylor [of x] by (simp only: abs_le_iff abs_of_nonneg) linarith

lemma sin_1_bounds: "84147098 / 100000000 < sin (1::real) \<and> sin (1::real) < 84147099 / 100000000"
  using sin_upper [of 1] sin_lower [of 1] by simp

lemma pi_lower: "314159262 / 100000000 < pi"
proof -
  define q :: real where "q = 52359877 / 100000000"
  have q0: "0 \<le> q" by (simp add: q_def)
  have "sin q \<le> q - q^3 / 6 + q^5 / 120 - q^7 / 5040 + q^9 / 362880 - q^11 / 39916800
               + q^13 / 6227020800"
    using q0 by (rule sin_upper)
  also have "\<dots> < 1 / 2"
    by (simp add: q_def power_divide)
  finally have small: "sin q < sin (pi / 6)"
    by (simp add: sin_30)
  have "q < pi / 6"
  proof (rule ccontr)
    assume "\<not> q < pi / 6"
    then have "pi / 6 \<le> q" by simp
    moreover have "q \<le> pi / 2" using pi_ge_three by (simp add: q_def)
    ultimately have "sin (pi / 6) \<le> sin q"
      by (intro sin_monotone_2pi_le) simp_all
    with small show False by simp
  qed
  then show ?thesis by (simp add: q_def)
qed

lemma pi_upper: "pi < 314159268 / 100000000"
proof -
  define q :: real where "q = 52359878 / 100000000"
  have q0: "0 \<le> q" by (simp add: q_def)
  have "1 / 2 < q - q^3 / 6 + q^5 / 120 - q^7 / 5040 + q^9 / 362880 - q^11 / 39916800
               - q^13 / 6227020800"
    by (simp add: q_def power_divide)
  also have "\<dots> \<le> sin q"
    using q0 by (rule sin_lower)
  finally have big: "sin (pi / 6) < sin q"
    by (simp add: sin_30)
  have "pi / 6 < q"
  proof (rule ccontr)
    assume "\<not> pi / 6 < q"
    then have "q \<le> pi / 6" by simp
    moreover have "- (pi / 2) \<le> q" using q0 pi_ge_three by simp
    ultimately have "sin q \<le> sin (pi / 6)"
      by (intro sin_monotone_2pi_le) simp_all
    with big show False by simp
  qed
  then show ?thesis by (simp add: q_def)
qed

lemma sin_1_sq_bounds:
  "70807341 / 100000000 \<le> (sin (1::real))\<^sup>2 \<and> (sin (1::real))\<^sup>2 \<le> 70807343 / 100000000"
proof -
  have "(84147098 / 100000000)\<^sup>2 \<le> (sin (1::real))\<^sup>2"
    using sin_1_bounds by (intro power_mono) simp_all
  moreover have "(sin (1::real))\<^sup>2 \<le> (84147099 / 100000000)\<^sup>2"
    using sin_1_bounds sin_1_pos by (intro power_mono) simp_all
  ultimately show ?thesis
    by (simp add: power_divide)
qed

lemma sin_arctan_sin_1: "sin (arctan (sin 1)) * sqrt (1 + (sin (1::real))\<^sup>2) = sin 1"
  using root_pos by (simp add: sin_arctan)

lemma cos_1_sq: "(cos (1::real))\<^sup>2 = 1 - (sin 1)\<^sup>2"
  using sin_cos_squared_add [of "1::real"] by linarith

lemma arctan_sin_1_lower: "6995216 / 10000000 < arctan (sin (1::real))"
proof -
  define q :: real where "q = 6995216 / 10000000"
  define a :: real where "a = 64385172 / 100000000"
  define r where "r = sqrt (1 + (sin (1::real))\<^sup>2)"
  define x where "x = (sin (1::real))\<^sup>2"
  have q0: "0 \<le> q" by (simp add: q_def)
  have r0: "0 < r" unfolding r_def by (rule root_pos)
  have r2: "r\<^sup>2 = 1 + x" by (simp add: r_def x_def)
  have x_lo: "70807341 / 100000000 \<le> x" unfolding x_def using sin_1_sq_bounds by simp
  have eq: "sin (arctan (sin 1)) * r = sin 1"
    unfolding r_def by (rule sin_arctan_sin_1)
  have "sin q \<le> q - q^3 / 6 + q^5 / 120 - q^7 / 5040 + q^9 / 362880 - q^11 / 39916800
               + q^13 / 6227020800"
    using q0 by (rule sin_upper)
  also have "\<dots> < a"
    by (simp add: q_def a_def power_divide)
  finally have qa: "sin q < a" .
  have "a\<^sup>2 * (1 + x) \<le> x"
    using x_lo by (simp add: a_def power_divide)
  then have sq: "(a * r)\<^sup>2 \<le> (sin 1)\<^sup>2"
    by (simp add: power_mult_distrib r2 x_def)
  have "0 \<le> sin (1::real)"
    using sin_1_pos by simp
  with sq have ar: "a * r \<le> sin 1"
    by (rule power2_le_imp_le)
  have "sin q * r < a * r"
    using qa r0 by (rule mult_strict_right_mono)
  with ar eq have "sin q * r < sin (arctan (sin 1)) * r" by linarith
  then have small: "sin q < sin (arctan (sin 1))"
    using r0 by (simp only: mult_less_cancel_right_pos)
  show ?thesis
  proof (rule ccontr)
    assume "\<not> 6995216 / 10000000 < arctan (sin (1::real))"
    then have "arctan (sin 1) \<le> q" by (simp add: q_def)
    moreover have "q \<le> pi / 2" using pi_ge_three by (simp add: q_def)
    moreover have "- (pi / 2) \<le> arctan (sin (1::real))"
      using arctan_lbound [of "sin (1::real)"] by simp
    ultimately have "sin (arctan (sin 1)) \<le> sin q"
      by (intro sin_monotone_2pi_le) simp_all
    with small show False by simp
  qed
qed

lemma arctan_sin_1_upper: "arctan (sin (1::real)) < 6995217 / 10000000"
proof -
  define q :: real where "q = 6995217 / 10000000"
  define b :: real where "b = 64385178 / 100000000"
  define r where "r = sqrt (1 + (sin (1::real))\<^sup>2)"
  define x where "x = (sin (1::real))\<^sup>2"
  have q0: "0 \<le> q" by (simp add: q_def)
  have r0: "0 < r" unfolding r_def by (rule root_pos)
  have r2: "r\<^sup>2 = 1 + x" by (simp add: r_def x_def)
  have x_hi: "x \<le> 70807343 / 100000000" unfolding x_def using sin_1_sq_bounds by simp
  have eq: "sin (arctan (sin 1)) * r = sin 1"
    unfolding r_def by (rule sin_arctan_sin_1)
  have "b < q - q^3 / 6 + q^5 / 120 - q^7 / 5040 + q^9 / 362880 - q^11 / 39916800
               - q^13 / 6227020800"
    by (simp add: q_def b_def power_divide)
  also have "\<dots> \<le> sin q"
    using q0 by (rule sin_lower)
  finally have bq: "b < sin q" .
  have "x \<le> b\<^sup>2 * (1 + x)"
    using x_hi by (simp add: b_def power_divide)
  then have sq: "(sin 1)\<^sup>2 \<le> (b * r)\<^sup>2"
    by (simp add: power_mult_distrib r2 x_def)
  have "0 \<le> b * r"
    using r0 by (simp add: b_def)
  with sq have br: "sin 1 \<le> b * r"
    by (rule power2_le_imp_le)
  have "b * r < sin q * r"
    using bq r0 by (rule mult_strict_right_mono)
  with br eq have "sin (arctan (sin 1)) * r < sin q * r" by linarith
  then have big: "sin (arctan (sin 1)) < sin q"
    using r0 by (simp only: mult_less_cancel_right_pos)
  show ?thesis
  proof (rule ccontr)
    assume "\<not> arctan (sin (1::real)) < 6995217 / 10000000"
    then have "q \<le> arctan (sin 1)" by (simp add: q_def)
    moreover have "arctan (sin (1::real)) \<le> pi / 2"
      using arctan_ubound [of "sin (1::real)"] by simp
    moreover have "- (pi / 2) \<le> q" using q0 pi_ge_three by simp
    ultimately have "sin q \<le> sin (arctan (sin 1))"
      by (intro sin_monotone_2pi_le) simp_all
    with big show False by simp
  qed
qed

lemma scale_y_lower: "241889082 / 100000000 < sqrt (1 + (sin 1)\<^sup>2) / cos (1::real)"
proof -
  define l :: real where "l = 241889082 / 100000000"
  define x where "x = (sin (1::real))\<^sup>2"
  have x_lo: "70807341 / 100000000 \<le> x" unfolding x_def using sin_1_sq_bounds by simp
  have "l\<^sup>2 * (1 - x) < 1 + x"
    using x_lo by (simp add: l_def power_divide)
  then have "(l * cos 1)\<^sup>2 < 1 + (sin (1::real))\<^sup>2"
    by (simp add: power_mult_distrib cos_1_sq x_def)
  then have "l * cos 1 < sqrt (1 + (sin (1::real))\<^sup>2)"
    by (rule real_less_rsqrt)
  then have "l < sqrt (1 + (sin (1::real))\<^sup>2) / cos 1"
    using cos_1_pos by (simp only: pos_less_divide_eq)
  then show ?thesis
    by (simp only: l_def)
qed

lemma scale_y_upper: "sqrt (1 + (sin 1)\<^sup>2) / cos (1::real) < 241889282 / 100000000"
proof -
  define u :: real where "u = 241889282 / 100000000"
  define x where "x = (sin (1::real))\<^sup>2"
  have x_hi: "x \<le> 70807343 / 100000000" unfolding x_def using sin_1_sq_bounds by simp
  have "1 + x < u\<^sup>2 * (1 - x)"
    using x_hi by (simp add: u_def power_divide)
  then have sq: "1 + (sin (1::real))\<^sup>2 < (u * cos 1)\<^sup>2"
    by (simp add: power_mult_distrib cos_1_sq x_def)
  have "0 \<le> u * cos 1"
    using cos_1_pos by (simp add: u_def)
  then have "sqrt (1 + (sin (1::real))\<^sup>2) < u * cos 1"
    using sq by (rule real_less_lsqrt)
  then have "sqrt (1 + (sin (1::real))\<^sup>2) / cos 1 < u"
    using cos_1_pos by (simp only: pos_divide_less_eq)
  then show ?thesis
    by (simp only: u_def)
qed

text \<open>
  C4. Inverting \<^verbatim>\<open>lin2(shear=1)\<close> returns the transform of scale
  \<open>[1, sqrt (1 + (sin 1)\<^sup>2) / cos 1]\<close>, angle \<open>0\<close> and shear \<open>pi - arctan (sin 1)\<close>; the
  second scale is within \<open>1e-6\<close> of \<open>2.41889182\<close> and the shear within \<open>1e-6\<close> of
  \<open>2.4420710092412734\<close>.
\<close>

theorem invert_shear1_values:
  "lin2_init [1, 1] 0 1 = Inr lin2_shear1
   \<and> snd (lin2_invert lin2_shear1) = Inr lin2_shear1_inverse
   \<and> get_scale lin2_shear1_inverse = [1, sqrt (1 + (sin 1)\<^sup>2) / cos 1]
   \<and> \<bar>sqrt (1 + (sin 1)\<^sup>2) / cos 1 - 241889182 / 100000000\<bar> < 1 / 1000000
   \<and> get_angle lin2_shear1_inverse = 0
   \<and> get_shear lin2_shear1_inverse = pi - arctan (sin 1)
   \<and> \<bar>pi - arctan (sin 1) - 24420710092412734 / 10000000000000000\<bar> < 1 / 1000000"
proof -
  have sy: "\<bar>sqrt (1 + (sin 1)\<^sup>2) / cos (1::real) - 241889182 / 100000000\<bar> < 1 / 1000000"
    using scale_y_lower scale_y_upper by (simp only: abs_less_iff) linarith
  have sh: "\<bar>pi - arctan (sin (1::real)) - 24420710092412734 / 10000000000000000\<bar>
      < 1 / 1000000"
    using pi_lower pi_upper arctan_sin_1_lower arctan_sin_1_upper
    by (simp only: abs_less_iff) linarith
  have "get_scale lin2_shear1_inverse = [1, sqrt (1 + (sin 1)\<^sup>2) / cos 1]"
    "get_angle lin2_shear1_inverse = 0"
    "get_shear lin2_shear1_inverse = pi - arctan (sin 1)"
    by (simp_all add: get_scale_def get_angle_def get_shear_def lin2_shear1_inverse_def)
  with sy sh show ?thesis
    by (simp only: lin2_init_shear1 lin2_invert_shear1 snd_conv simp_thms)
qed


section \<open>The principal range on doubles\<close>

lemma round_even_error: "\<bar>of_int (round_even z) - z\<bar> \<le> 1 / 2"
proof -
  have "of_int \<lfloor>z\<rfloor> \<le> z" "z < of_int \<lfloor>z\<rfloor> + 1"
    by linarith+
  then show ?thesis
    by (auto simp add: round_even_def Let_def)
qed

lemma round_even_nonneg: "0 \<le> z \<Longrightarrow> 0 \<le> round_even z"
proof -
  assume "0 \<le> z"
  then have "0 \<le> \<lfloor>z\<rfloor>" by simp
  then show ?thesis
    by (auto simp add: round_even_def Let_def)
qed

lemma round_even_nonpos: "z \<le> 0 \<Longrightarrow> round_even z \<le> 0"
proof -
  assume z: "z \<le> 0"
  show ?thesis
  proof (cases "z = of_int \<lfloor>z\<rfloor>")
    case True
    then have "z - of_int \<lfloor>z\<rfloor> = 0" by simp
    moreover have "\<lfloor>z\<rfloor> \<le> 0" using z by (simp add: floor_le_iff)
    ultimately show ?thesis
      by (simp add: round_even_def Let_def)
  next
    case False
    then have "of_int \<lfloor>z\<rfloor> < z"
      using of_int_floor_le [of z] by linarith
    with z have "of_int \<lfloor>z\<rfloor> < (0::real)" by linarith
    then have "\<lfloor>z\<rfloor> < 0" by simp
    then show ?thesis
      by (auto simp add: round_even_def Let_def)
  qed
qed

lemma round_double_nonneg: "0 \<le> x \<Longrightarrow> 0 \<le> round_double x"
  by (simp add: round_double_def Let_def round_even_nonneg)

lemma round_double_nonpos: "x \<le> 0 \<Longrightarrow> round_double x \<le> 0"
proof -
  assume x: "x \<le> 0"
  have "round_even (x * s) \<le> 0" if "0 < s" for s :: real
    using x that by (intro round_even_nonpos) (simp add: mult_le_0_iff)
  then show ?thesis
    by (simp add: round_double_def Let_def divide_le_0_iff)
qed

lemma round_double_error:
  assumes "\<bar>x\<bar> < 2 ^ 55"
  shows "\<bar>round_double x - x\<bar> \<le> 2"
proof (cases "x = 0")
  case True
  then show ?thesis by (simp add: round_double_def)
next
  case False
  define e where "e = \<lfloor>log 2 \<bar>x\<bar>\<rfloor>"
  define s :: real where "s = 2 powr of_int (52 - e)"
  have pos: "0 < \<bar>x\<bar>" using False by simp
  have "\<bar>x\<bar> < 2 powr 55"
    using assms by simp
  then have "log 2 \<bar>x\<bar> < 55"
    using pos by (simp add: log_less_iff)
  then have "log 2 \<bar>x\<bar> < of_int 55" by simp
  then have "e < 55" unfolding e_def by (simp only: floor_less_iff)
  then have "(- 2 :: real) \<le> of_int (52 - e)" by simp
  then have "2 powr (- 2) \<le> s"
    unfolding s_def by (intro powr_mono) simp_all
  moreover have "(2::real) powr (- 2) = 1 / 4"
    using powr_minus [of "2::real" 2] by simp
  ultimately have s4: "1 / 4 \<le> s"
    by simp
  then have s0: "0 < s" by linarith
  have rd: "round_double x = of_int (round_even (x * s)) / s"
    using False by (simp add: round_double_def Let_def s_def e_def)
  have "round_double x - x = (of_int (round_even (x * s)) - x * s) / s"
    using s0 by (simp add: rd field_simps)
  then have "\<bar>round_double x - x\<bar> = \<bar>of_int (round_even (x * s)) - x * s\<bar> / s"
    using s0 by (simp add: abs_divide)
  also have "\<dots> \<le> (1 / 2) / s"
    using s0 round_even_error [of "x * s"] by (intro divide_right_mono) simp_all
  also have "\<dots> \<le> 2"
    using s4 s0 by (simp add: field_simps)
  finally show ?thesis .
qed

lemma round_double_binade:
  assumes "2 powr of_int k \<le> x" and "x < 2 powr of_int (k + 1)"
  shows "round_double x
    = of_int (round_even (x * 2 powr of_int (52 - k))) / 2 powr of_int (52 - k)"
proof -
  have "0 < (2::real) powr of_int k" by simp
  with assms(1) have pos: "0 < x" by linarith
  then have "\<lfloor>log 2 \<bar>x\<bar>\<rfloor> = k"
    using assms floor_log_eq_powr_iff [of x 2 k] by simp
  then show ?thesis
    using pos by (simp add: round_double_def Let_def)
qed

lemma round_even_of_int: "round_even (of_int n) = n"
  by (simp add: round_even_def Let_def)

lemma round_even_up:
  assumes "of_int n + 1 / 2 < z" and "z < of_int n + 1"
  shows "round_even z = n + 1"
proof -
  have "\<lfloor>z\<rfloor> = n"
    using assms by (intro floor_unique) linarith+
  then show ?thesis
    using assms by (simp add: round_even_def Let_def)
qed

lemma round_double_huge: "round_double (2 ^ 60 - M_PI_double) = 2 ^ 60"
proof -
  define x :: real where "x = 2 ^ 60 - M_PI_double"
  have p59: "(2::real) powr of_int 59 = 2 ^ 59" and p60: "(2::real) powr of_int (59 + 1) = 2 ^ 60"
    by (simp_all add: powr_realpow [of 2, symmetric] del: powr_numeral)
  have s: "(2::real) powr of_int (52 - 59) = 1 / 128"
    using powr_minus [of "2::real" 7] by simp
  have lo: "2 powr of_int 59 \<le> x" and hi: "x < 2 powr of_int (59 + 1)"
    unfolding p59 p60 by (simp_all add: x_def M_PI_double_def)
  have "round_even (x * (1 / 128)) = (2 ^ 53 - 1) + 1"
    by (rule round_even_up) (simp_all add: x_def M_PI_double_def)
  then have "round_even (x * (1 / 128)) = 2 ^ 53" by simp
  then have "round_double x = of_int (2 ^ 53) / (1 / 128)"
    using round_double_binade [OF lo hi] by (simp only: s)
  then show ?thesis
    by (simp add: x_def)
qed

lemma round_double_half_pi: "round_double (3 * M_PI_double / 2 - M_PI_double) = M_PI_double / 2"
proof -
  define x :: real where "x = 3 * M_PI_double / 2 - M_PI_double"
  have xv: "x = of_int 7074237752028440 / 2 ^ 52"
    by (simp add: x_def M_PI_double_def)
  have p0: "(2::real) powr of_int 0 = 1" and p1: "(2::real) powr of_int (0 + 1) = 2"
    by simp_all
  have s: "(2::real) powr of_int (52 - 0) = 2 ^ 52"
    by (simp add: powr_realpow [of 2, symmetric] del: powr_numeral)
  have lo: "2 powr of_int 0 \<le> x" and hi: "x < 2 powr of_int (0 + 1)"
    unfolding p0 p1 by (simp_all add: x_def M_PI_double_def)
  have "x * 2 ^ 52 = of_int 7074237752028440"
    by (simp add: xv)
  then have "round_even (x * 2 ^ 52) = 7074237752028440"
    by (simp only: round_even_of_int)
  then have "round_double x = of_int 7074237752028440 / 2 ^ 52"
    using round_double_binade [OF lo hi] by (simp only: s)
  then show ?thesis
    unfolding xv [symmetric] by (simp add: x_def)
qed

lemma M_PI_double_bounds: "3 < M_PI_double" "M_PI_double < 4"
  by (simp_all add: M_PI_double_def)

lemma radian_range_sub_double_huge_aux:
  assumes "radian_range_sub_double x = Some y"
  shows "x \<noteq> 2 ^ 60"
proof (rule radian_range_sub_double.raw_induct [where P = "\<lambda>x y. x \<noteq> 2 ^ 60", OF _ assms])
  fix f :: "real \<Rightarrow> real option" and rad r :: real
  assume IH: "\<And>x y. f x = Some y \<Longrightarrow> x \<noteq> 2 ^ 60"
    and body: "(if M_PI_double \<le> rad then f (round_double (rad - M_PI_double)) else Some rad)
      = Some r"
  show "rad \<noteq> 2 ^ 60"
  proof
    assume eq: "rad = 2 ^ 60"
    then have "M_PI_double \<le> rad"
      using M_PI_double_bounds by simp
    with body have "f (round_double (rad - M_PI_double)) = Some r" by simp
    then have "f (2 ^ 60) = Some r"
      unfolding eq by (simp only: round_double_huge)
    from IH [OF this] show False by simp
  qed
qed

lemma radian_range_sub_double_huge: "radian_range_sub_double (2 ^ 60) = None"
proof (cases "radian_range_sub_double (2 ^ 60)")
  case None
  then show ?thesis .
next
  case (Some y)
  then show ?thesis
    using radian_range_sub_double_huge_aux [of "2 ^ 60" y] by simp
qed

lemma sub_step_decreases:
  assumes "M_PI_double \<le> rad" and "rad < 2 ^ 55"
  shows "0 \<le> sub_step rad" and "sub_step rad \<le> rad - 1"
proof -
  have d: "0 \<le> rad - M_PI_double" "\<bar>rad - M_PI_double\<bar> < 2 ^ 55"
    using assms M_PI_double_bounds by simp_all
  show "0 \<le> sub_step rad"
    unfolding sub_step_def using d(1) by (rule round_double_nonneg)
  have "\<bar>round_double (rad - M_PI_double) - (rad - M_PI_double)\<bar> \<le> 2"
    using d(2) by (rule round_double_error)
  then show "sub_step rad \<le> rad - 1"
    unfolding sub_step_def using M_PI_double_bounds by linarith
qed

lemma add_step_increases:
  assumes "rad < - M_PI_double" and "- (2 ^ 55) < rad"
  shows "add_step rad \<le> 0" and "rad + 1 \<le> add_step rad"
proof -
  have d: "rad + M_PI_double \<le> 0" "\<bar>rad + M_PI_double\<bar> < 2 ^ 55"
    using assms M_PI_double_bounds by simp_all
  show "add_step rad \<le> 0"
    unfolding add_step_def using d(1) by (rule round_double_nonpos)
  have "\<bar>round_double (rad + M_PI_double) - (rad + M_PI_double)\<bar> \<le> 2"
    using d(2) by (rule round_double_error)
  then show "rad + 1 \<le> add_step rad"
    unfolding add_step_def using M_PI_double_bounds by linarith
qed

lemma radian_range_sub_double_returns:
  "rad < 2 ^ 55 \<Longrightarrow>
    \<exists>k y. radian_range_sub_double rad = Some y \<and> y = (sub_step ^^ k) rad \<and> y < M_PI_double
      \<and> (rad < M_PI_double \<longrightarrow> k = 0) \<and> (M_PI_double \<le> rad \<longrightarrow> 0 \<le> y)"
proof (induction rad rule: measure_induct_rule [where f = "\<lambda>r. nat \<lfloor>r\<rfloor>"])
  case (less rad)
  show ?case
  proof (cases "M_PI_double \<le> rad")
    case False
    then have "radian_range_sub_double rad = Some rad"
      by (subst radian_range_sub_double.simps) simp
    with False show ?thesis
      by (intro exI [of _ 0] exI [of _ rad]) simp
  next
    case True
    note st = sub_step_decreases [OF True less.prems]
    have "\<lfloor>sub_step rad\<rfloor> \<le> \<lfloor>rad - 1\<rfloor>"
      using st(2) by (rule floor_mono)
    moreover have "0 < \<lfloor>rad\<rfloor>"
      using True M_PI_double_bounds by (simp add: floor_less_iff less_floor_iff)
    ultimately have "nat \<lfloor>sub_step rad\<rfloor> < nat \<lfloor>rad\<rfloor>"
      by simp
    moreover have "sub_step rad < 2 ^ 55"
      using st(2) less.prems by linarith
    ultimately obtain k y where ky: "radian_range_sub_double (sub_step rad) = Some y"
      "y = (sub_step ^^ k) (sub_step rad)" "y < M_PI_double"
      "sub_step rad < M_PI_double \<longrightarrow> k = 0" "M_PI_double \<le> sub_step rad \<longrightarrow> 0 \<le> y"
      using less.IH [of "sub_step rad"] by blast
    have "radian_range_sub_double rad = Some y"
      using True ky(1) by (subst radian_range_sub_double.simps) (simp add: sub_step_def)
    moreover have "y = (sub_step ^^ Suc k) rad"
      using ky(2) by (simp add: funpow_swap1)
    moreover have "0 \<le> y"
      using ky(2,4,5) st(1) by (cases "sub_step rad < M_PI_double") auto
    ultimately show ?thesis
      using True ky(3) by (intro exI [of _ "Suc k"] exI [of _ y]) simp
  qed
qed

lemma radian_range_add_double_returns:
  "- (2 ^ 55) < rad \<Longrightarrow>
    \<exists>k y. radian_range_add_double rad = Some y \<and> y = (add_step ^^ k) rad \<and> - M_PI_double \<le> y
      \<and> (- M_PI_double \<le> rad \<longrightarrow> k = 0) \<and> (rad < - M_PI_double \<longrightarrow> y \<le> 0)"
proof (induction rad rule: measure_induct_rule [where f = "\<lambda>r. nat (- \<lfloor>r\<rfloor>)"])
  case (less rad)
  show ?case
  proof (cases "rad < - M_PI_double")
    case False
    then have "radian_range_add_double rad = Some rad"
      by (subst radian_range_add_double.simps) simp
    with False show ?thesis
      by (intro exI [of _ 0] exI [of _ rad]) simp
  next
    case True
    note st = add_step_increases [OF True less.prems]
    have "\<lfloor>rad + 1\<rfloor> \<le> \<lfloor>add_step rad\<rfloor>"
      using st(2) by (rule floor_mono)
    moreover have "\<lfloor>rad\<rfloor> < 0"
      using True M_PI_double_bounds by (simp add: floor_less_iff)
    ultimately have "nat (- \<lfloor>add_step rad\<rfloor>) < nat (- \<lfloor>rad\<rfloor>)"
      by simp
    moreover have "- (2 ^ 55) < add_step rad"
      using st(2) less.prems by linarith
    ultimately obtain k y where ky: "radian_range_add_double (add_step rad) = Some y"
      "y = (add_step ^^ k) (add_step rad)" "- M_PI_double \<le> y"
      "- M_PI_double \<le> add_step rad \<longrightarrow> k = 0" "add_step rad < - M_PI_double \<longrightarrow> y \<le> 0"
      using less.IH [of "add_step rad"] by blast
    have "radian_range_add_double rad = Some y"
      using True ky(1) by (subst radian_range_add_double.simps) (simp add: add_step_def)
    moreover have "y = (add_step ^^ Suc k) rad"
      using ky(2) by (simp add: funpow_swap1)
    moreover have "y \<le> 0"
      using ky(2,4,5) st(1) by (cases "add_step rad < - M_PI_double") auto
    ultimately show ?thesis
      using True ky(3) by (intro exI [of _ "Suc k"] exI [of _ y]) simp
  qed
qed

lemma radian_range_double_returns:
  assumes "\<bar>x\<bar> < 2 ^ 55"
  shows "\<exists>y k. radian_range_double x = Some y \<and> - M_PI_double \<le> y \<and> y < M_PI_double
      \<and> (y = (sub_step ^^ k) x \<or> y = (add_step ^^ k) x)
      \<and> (- M_PI_double \<le> x \<and> x < M_PI_double \<longrightarrow> y = x)"
proof -
  have up: "x < 2 ^ 55" and lo: "- (2 ^ 55) < x"
    using assms by (simp_all add: abs_less_iff)
  obtain k y where s: "radian_range_sub_double x = Some y" "y = (sub_step ^^ k) x"
    "y < M_PI_double" "x < M_PI_double \<longrightarrow> k = 0" "M_PI_double \<le> x \<longrightarrow> 0 \<le> y"
    using radian_range_sub_double_returns [OF up] by blast
  show ?thesis
  proof (cases "M_PI_double \<le> x")
    case True
    then have "- M_PI_double \<le> y"
      using s(5) M_PI_double_bounds by simp
    then have "radian_range_add_double y = Some y"
      by (subst radian_range_add_double.simps) simp
    then have "radian_range_double x = Some y"
      by (simp add: radian_range_double_def s(1))
    with True s(2,3) \<open>- M_PI_double \<le> y\<close> show ?thesis
      by (intro exI [of _ y] exI [of _ k]) simp
  next
    case False
    then have yx: "y = x"
      using s(2,4) by simp
    obtain j z where a: "radian_range_add_double x = Some z" "z = (add_step ^^ j) x"
      "- M_PI_double \<le> z" "- M_PI_double \<le> x \<longrightarrow> j = 0" "x < - M_PI_double \<longrightarrow> z \<le> 0"
      using radian_range_add_double_returns [OF lo] by blast
    have "radian_range_double x = Some z"
      using a(1) s(1) yx by (simp add: radian_range_double_def)
    moreover have "z < M_PI_double"
      using a(2,4,5) False M_PI_double_bounds by (cases "x < - M_PI_double") auto
    moreover have "- M_PI_double \<le> x \<longrightarrow> z = x"
      using a(2,4) by simp
    ultimately show ?thesis
      using a(2,3) by (intro exI [of _ z] exI [of _ j]) simp
  qed
qed

lemma radian_range_double_3pi2:
  "radian_range_double (3 * M_PI_double / 2) = Some (M_PI_double / 2)"
proof -
  have "M_PI_double \<le> 3 * M_PI_double / 2" "\<not> M_PI_double \<le> M_PI_double / 2"
    "\<not> M_PI_double / 2 < - M_PI_double"
    using M_PI_double_bounds by simp_all
  then have "radian_range_sub_double (3 * M_PI_double / 2) = Some (M_PI_double / 2)"
    "radian_range_add_double (M_PI_double / 2) = Some (M_PI_double / 2)"
    by (subst radian_range_sub_double.simps, subst radian_range_sub_double.simps,
        simp only: round_double_half_pi if_True if_False,
        subst radian_range_add_double.simps, simp only: if_False)+
  then show ?thesis
    by (simp add: radian_range_double_def)
qed

text \<open>
  C7, as stated, fails on doubles: \<open>2^60\<close> is a finite double, the double nearest to
  \<open>2^60 - M_PI\<close> is \<open>2^60\<close> again, and the first loop never ends, so the call does not
  return.
\<close>

theorem radian_range_double_hangs: "radian_range_double (2 ^ 60) = None"
  unfolding radian_range_double_def radian_range_sub_double_huge by simp

text \<open>
  C7, amended. For every input \<open>x\<close> with \<open>|x| < 2^55\<close> the call returns, and its value
  \<open>y\<close> lies in \<open>[-M_PI, M_PI)\<close>; \<open>y\<close> is reached from \<open>x\<close> by subtracting \<^verbatim>\<open>M_PI\<close> a
  whole number of times, or by adding it a whole number of times, each result rounded to a
  double; the call is the identity on \<open>[-M_PI, M_PI)\<close>; and it reduces with period
  \<open>pi\<close>, not \<open>2 pi\<close>: \<open>3 * M_PI / 2\<close> goes to \<open>M_PI / 2\<close>, not to \<open>- M_PI / 2\<close>.
\<close>

theorem radian_range_double_principal:
  "(\<bar>x\<bar> < 2 ^ 55 \<longrightarrow>
      (\<exists>y k. radian_range_double x = Some y \<and> - M_PI_double \<le> y \<and> y < M_PI_double
        \<and> (y = (sub_step ^^ k) x \<or> y = (add_step ^^ k) x)
        \<and> (- M_PI_double \<le> x \<and> x < M_PI_double \<longrightarrow> y = x)))
   \<and> radian_range_double (3 * M_PI_double / 2) = Some (M_PI_double / 2)
   \<and> radian_range_double (3 * M_PI_double / 2) \<noteq> Some (- (M_PI_double / 2))"
proof -
  have "M_PI_double / 2 \<noteq> - (M_PI_double / 2)"
    using M_PI_double_bounds by simp
  then show ?thesis
    using radian_range_double_returns [of x] by (simp add: radian_range_double_3pi2)
qed

theorem radian_range_double_principal_witness:
  "\<bar>1 :: real\<bar> < 2 ^ 55 \<and> radian_range_double 1 = Some 1
   \<and> \<bar>10 :: real\<bar> < 2 ^ 55
   \<and> (\<exists>y. radian_range_double 10 = Some y \<and> - M_PI_double \<le> y \<and> y < M_PI_double)"
proof -
  have b: "- M_PI_double \<le> 1" "1 < M_PI_double"
    using M_PI_double_bounds by simp_all
  have s: "\<bar>1 :: real\<bar> < 2 ^ 55" "\<bar>10 :: real\<bar> < 2 ^ 55"
    by simp_all
  from radian_range_double_principal [of 1] s(1) b
  have "radian_range_double 1 = Some 1" by auto
  moreover from radian_range_double_principal [of 10] s(2)
  have "\<exists>y. radian_range_double 10 = Some y \<and> - M_PI_double \<le> y \<and> y < M_PI_double"
    by blast
  ultimately show ?thesis
    using s by blast
qed

end
